theory Spec2Isabelle
  imports Complex_Main "HOL-Library.Word" "HOL-Library.Sublist"
begin

section \<open>The convertToUtf8 cloud function (functions/index.js)\<close>

text \<open>
  The handler receives a file name, the file content in base64 and an optional source
  encoding. Without a source encoding it decodes the buffer with each of 25 encoding names,
  scores every decoded string and keeps the first name with the highest score; then it
  decodes the buffer once more with the chosen name and returns the text as UTF-8.

  JavaScript strings are sequences of UTF-16 code units and \<open>length\<close> counts code
  units, so a decoded text is a list of 16-bit words. File names, base64 text, encoding
  names and messages are kept as HOL strings.
\<close>

subsection \<open>Data\<close>

type_synonym byte = "8 word"
type_synonym buffer = "byte list"
type_synonym jsstring = "16 word list"

text \<open>A string literal of the source as a JavaScript string.\<close>

definition js :: "string \<Rightarrow> jsstring" where
  "js s = map of_char s"

text \<open>A thrown \<open>Error\<close> carries its message.\<close>

datatype jserror = Error string

text \<open>
  The two library functions whose results depend on tables that are not part of the
  repository are parameters of the model: \<open>iconv.decode(buffer, encoding)\<close> of
  iconv-lite, which returns the decoded string or throws, and
  \<open>String.prototype.toUpperCase\<close> of the JavaScript runtime.
\<close>

record runtime =
  iconv_decode :: "buffer \<Rightarrow> string \<Rightarrow> jserror + jsstring"
  toUpperCase :: "jsstring \<Rightarrow> jsstring"

text \<open>
  The value of \<open>printableChars / decoded.length\<close>: a JavaScript number. Both operands
  are string lengths, so the quotient is \<open>NaN\<close> for \<open>0 / 0\<close>, \<open>Infinity\<close> for
  \<open>n / 0\<close> with \<open>n > 0\<close>, and the quotient otherwise. The quotient is kept exact:
  for operands below \<open>2^50\<close> (a string is far shorter) the double nearest to
  \<open>p / n\<close> is greater than the double \<open>0.8\<close> exactly when \<open>p / n > 4/5\<close>,
  because two distinct fractions with denominators \<open>n\<close> and \<open>5\<close> differ by at least
  \<open>1 / (5 n)\<close>, far more than the spacing of doubles near \<open>0.8\<close>, and rounding is
  monotone.
\<close>

datatype jsnumber = NaN | Infinity | Num rat

definition js_divide :: "nat \<Rightarrow> nat \<Rightarrow> jsnumber" where
  "js_divide a b =
     (if b = 0 then (if a = 0 then NaN else Infinity) else Num (of_nat a / of_nat b))"

text \<open>\<open>x > q\<close> on numbers: every comparison with \<open>NaN\<close> is false.\<close>

fun js_greater :: "jsnumber \<Rightarrow> rat \<Rightarrow> bool" where
  "js_greater NaN q = False"
| "js_greater Infinity q = True"
| "js_greater (Num x) q = (q < x)"

subsection \<open>String operations of the scoring block\<close>

text \<open>
  \<open>s.match(/[...]/g)\<close> with a character class: the array of all matches, each one code
  unit long, or \<open>null\<close> when nothing matches; \<open>(m || [])\<close> replaces \<open>null\<close> by the
  empty array.
\<close>

definition match_g :: "(16 word \<Rightarrow> bool) \<Rightarrow> jsstring \<Rightarrow> jsstring list option" where
  "match_g cls s = (case filter cls s of [] \<Rightarrow> None | m # ms \<Rightarrow> Some (map (\<lambda>c. [c]) (m # ms)))"

definition or_empty :: "'a list option \<Rightarrow> 'a list" where
  "or_empty m = (case m of None \<Rightarrow> [] | Some xs \<Rightarrow> xs)"

text \<open>\<open>s.replace(/[...]/g, "")\<close> with a character class removes every matching code unit.\<close>

definition replace_g_empty :: "(16 word \<Rightarrow> bool) \<Rightarrow> jsstring \<Rightarrow> jsstring" where
  "replace_g_empty cls s = filter (\<lambda>c. \<not> cls c) s"

text \<open>\<open>s.includes(k)\<close>: \<open>k\<close> occurs in \<open>s\<close> at some position.\<close>

fun js_includes :: "'a list \<Rightarrow> 'a list \<Rightarrow> bool" where
  "js_includes [] k = (k = [])"
| "js_includes (c # cs) k = (prefix k (c # cs) \<or> js_includes cs k)"

text \<open>
  The three character classes of the block: the replacement character U+FFFD; the control
  codes 0x00 to 0x1F and 0x7F to 0x9F; and the six characters semicolon, opening and
  closing parenthesis, comma, apostrophe and double quote.
\<close>

definition is_replacement :: "16 word \<Rightarrow> bool" where
  "is_replacement c = (c = 0xFFFD)"

definition is_control :: "16 word \<Rightarrow> bool" where
  "is_control c = (c \<le> 0x1F \<or> (0x7F \<le> c \<and> c \<le> 0x9F))"

definition is_sqlChar :: "16 word \<Rightarrow> bool" where
  "is_sqlChar c = (c = 0x3B \<or> c = 0x28 \<or> c = 0x29 \<or> c = 0x2C \<or> c = 0x27 \<or> c = 0x22)"

subsection \<open>The score of a decoded string (lines 116 to 148)\<close>

definition replacementCharCount :: "jsstring \<Rightarrow> nat" where
  "replacementCharCount decoded = length (or_empty (match_g is_replacement decoded))"

definition sqlKeywords :: "jsstring list" where
  "sqlKeywords = map js [''SELECT'', ''INSERT'', ''UPDATE'', ''DELETE'', ''CREATE'',
     ''DROP'', ''ALTER'', ''TABLE'', ''FROM'', ''WHERE'']"

definition sqlKeywordCount :: "runtime \<Rightarrow> jsstring \<Rightarrow> nat" where
  "sqlKeywordCount rt decoded =
     foldl (\<lambda>count keyword. count + (if js_includes (toUpperCase rt decoded) keyword then 1 else 0))
       0 sqlKeywords"

definition printableChars :: "jsstring \<Rightarrow> nat" where
  "printableChars decoded = length (replace_g_empty is_control decoded)"

definition printableRatio :: "jsstring \<Rightarrow> jsnumber" where
  "printableRatio decoded = js_divide (printableChars decoded) (length decoded)"

definition sqlCharCount :: "jsstring \<Rightarrow> nat" where
  "sqlCharCount decoded = length (or_empty (match_g is_sqlChar decoded))"

definition score :: "runtime \<Rightarrow> jsstring \<Rightarrow> int" where
  "score rt decoded =
     (let score0 = 0;
          score1 = (if replacementCharCount decoded = 0 then score0 + 100
                    else score0 - int (replacementCharCount decoded) * 10);
          score2 = (if length decoded > 0 then score1 + 50 else score1);
          score3 = score2 + int (sqlKeywordCount rt decoded) * 5;
          score4 = (if js_greater (printableRatio decoded) (8 / 10) then score3 + 30 else score3);
          score5 = score4 + int (min (sqlCharCount decoded) 20)
      in score5)"

subsection \<open>The detection loop (lines 92 to 175)\<close>

text \<open>
  What a run does besides computing its result is kept as a list of events, in the order
  of the source: every call of \<open>iconv.decode\<close> with its encoding name, and every call of
  the logger (the debug line of the loop with the encoding and its score, the other lines
  with their message).
\<close>

datatype event =
  is_IconvDecode: IconvDecode string
  | is_LogDebug: LogDebug string int
  | is_LogInfo: LogInfo string
  | is_LogError: LogError string

record detection =
  bestEncoding :: string
  bestScore :: int
  events :: "event list"

definition encodingsToTry :: "string list" where
  "encodingsToTry =
     [''utf8'', ''utf-8'',
      ''windows-1251'', ''cp1251'',
      ''windows-1252'', ''cp1252'',
      ''iso-8859-1'', ''latin1'',
      ''iso-8859-2'', ''latin2'',
      ''iso-8859-5'', ''cyrillic'',
      ''koi8-r'', ''koi8-u'',
      ''cp866'', ''ibm866'',
      ''cp850'', ''ibm850'',
      ''macintosh'', ''mac'',
      ''utf-16le'', ''utf-16be'',
      ''utf-32le'', ''utf-32be'',
      ''ascii'']"

text \<open>
  The body of the loop: the \<open>try\<close> block decodes, scores, logs and updates the best pair
  when the score is strictly greater; the \<open>catch\<close> block continues with the next name.
\<close>

definition try_encoding :: "runtime \<Rightarrow> buffer \<Rightarrow> string \<Rightarrow> detection \<Rightarrow> detection" where
  "try_encoding rt buf encoding st =
     (case iconv_decode rt buf encoding of
        Inl err \<Rightarrow> st\<lparr>events := events st @ [IconvDecode encoding]\<rparr>
      | Inr decoded \<Rightarrow>
          (let sc = score rt decoded;
               st1 = st\<lparr>events := events st @ [IconvDecode encoding, LogDebug encoding sc]\<rparr>
           in if sc > bestScore st1 then st1\<lparr>bestScore := sc, bestEncoding := encoding\<rparr>
              else st1))"

fun detect_loop :: "runtime \<Rightarrow> buffer \<Rightarrow> string list \<Rightarrow> detection \<Rightarrow> detection" where
  "detect_loop rt buf [] st = st"
| "detect_loop rt buf (encoding # rest) st =
     detect_loop rt buf rest (try_encoding rt buf encoding st)"

definition detect :: "runtime \<Rightarrow> buffer \<Rightarrow> event list \<Rightarrow> detection" where
  "detect rt buf evs =
     (let st = detect_loop rt buf encodingsToTry
                 \<lparr>bestEncoding = ''utf8'', bestScore = 0, events = evs\<rparr>
      in st\<lparr>events := events st @ [LogInfo ''Encoding auto-detection completed'']\<rparr>)"

subsection \<open>Node library functions used by the handler\<close>

text \<open>
  Modelled from the spec: \<open>path.parse\<close> of Node's path module is not under src/. The
  spec asks for last-dot semantics consistent with standard path splitting; this is the
  POSIX \<open>path.parse\<close>, restricted to the two fields the handler reads. Trailing slashes
  are dropped, the base is what follows the last remaining slash, and the extension starts
  at the last dot of the base unless the base has no dot, its last dot is its first
  character, or the base is two dots.
\<close>

record parsed_path =
  name :: string
  ext :: string

definition path_parse :: "string \<Rightarrow> parsed_path" where
  "path_parse path =
     (let trimmed = rev (dropWhile (\<lambda>c. c = CHR ''/'') (rev path));
          base = rev (takeWhile (\<lambda>c. c \<noteq> CHR ''/'') (rev trimmed));
          startDot = length base - Suc (length (takeWhile (\<lambda>c. c \<noteq> CHR ''.'') (rev base)))
      in if CHR ''.'' \<notin> set base \<or> startDot = 0 \<or> base = ''..''
         then \<lparr>name = base, ext = []\<rparr>
         else \<lparr>name = take startDot base, ext = drop startDot base\<rparr>)"

text \<open>
  Modelled from the spec: \<open>Buffer.from(s, 'base64')\<close> of Node is not under src/; the
  spec only says that the content arrives base64-encoded. This is Node's lenient decoder:
  decoding stops at the first \<open>=\<close>, a character outside the base64 and base64url
  alphabets is skipped, every four sextets give three bytes, and two or three trailing
  sextets give one or two bytes.
\<close>

definition unbase64 :: "char \<Rightarrow> nat option" where
  "unbase64 c =
     (let n = (of_char c :: nat) in
      if 65 \<le> n \<and> n \<le> 90 then Some (n - 65)
      else if 97 \<le> n \<and> n \<le> 122 then Some (n - 71)
      else if 48 \<le> n \<and> n \<le> 57 then Some (n + 4)
      else if n = 43 \<or> n = 45 then Some 62
      else if n = 47 \<or> n = 95 then Some 63
      else None)"

fun base64_groups :: "nat list \<Rightarrow> nat list" where
  "base64_groups (a # b # c # d # rest) =
     (a * 4 + b div 16) # ((b mod 16) * 16 + c div 4) # ((c mod 4) * 64 + d) # base64_groups rest"
| "base64_groups [a, b, c] = [a * 4 + b div 16, (b mod 16) * 16 + c div 4]"
| "base64_groups [a, b] = [a * 4 + b div 16]"
| "base64_groups [a] = []"
| "base64_groups [] = []"

definition Buffer_from_base64 :: "string \<Rightarrow> buffer" where
  "Buffer_from_base64 s =
     map of_nat (base64_groups (List.map_filter unbase64 (takeWhile (\<lambda>c. c \<noteq> CHR ''='') s)))"

text \<open>
  Modelled from the spec: \<open>Buffer.from(text, 'utf8')\<close> of Node is not under src/; the
  spec calls it encoding the text as UTF-8 bytes. A surrogate pair is one code point of
  four bytes; a surrogate code unit without its partner is encoded as U+FFFD.
\<close>

definition utf8_bytes :: "nat \<Rightarrow> nat list" where
  "utf8_bytes cp =
     (if cp < 0x80 then [cp]
      else if cp < 0x800 then [0xC0 + cp div 64, 0x80 + cp mod 64]
      else if cp < 0x10000 then [0xE0 + cp div 4096, 0x80 + (cp div 64) mod 64, 0x80 + cp mod 64]
      else [0xF0 + cp div 262144, 0x80 + (cp div 4096) mod 64, 0x80 + (cp div 64) mod 64,
            0x80 + cp mod 64])"

definition is_high_surrogate :: "nat \<Rightarrow> bool" where
  "is_high_surrogate u = (0xD800 \<le> u \<and> u < 0xDC00)"

definition is_low_surrogate :: "nat \<Rightarrow> bool" where
  "is_low_surrogate u = (0xDC00 \<le> u \<and> u < 0xE000)"

fun utf8_encode :: "nat list \<Rightarrow> nat list" where
  "utf8_encode [] = []"
| "utf8_encode [u] =
     (if is_high_surrogate u \<or> is_low_surrogate u then utf8_bytes 0xFFFD else utf8_bytes u)"
| "utf8_encode (u # l # rest) =
     (if is_high_surrogate u \<and> is_low_surrogate l
      then utf8_bytes (0x10000 + (u - 0xD800) * 1024 + (l - 0xDC00)) @ utf8_encode rest
      else if is_high_surrogate u \<or> is_low_surrogate u
      then utf8_bytes 0xFFFD @ utf8_encode (l # rest)
      else utf8_bytes u @ utf8_encode (l # rest))"

definition Buffer_from_utf8 :: "jsstring \<Rightarrow> buffer" where
  "Buffer_from_utf8 s = map of_nat (utf8_encode (map unat s))"

text \<open>
  Modelled from the spec: \<open>buffer.toString('base64')\<close> of Node is not under src/; the
  spec calls its result the base64-encoded UTF-8 result bytes. Standard base64 with
  padding.
\<close>

definition base64_char :: "nat \<Rightarrow> char" where
  "base64_char n =
     ''ABCDEFGHIJKLMNOPQRSTUVWXYZabcdefghijklmnopqrstuvwxyz0123456789+/'' ! n"

fun base64_encode :: "nat list \<Rightarrow> string" where
  "base64_encode (a # b # c # rest) =
     base64_char (a div 4) # base64_char ((a mod 4) * 16 + b div 16) #
     base64_char ((b mod 16) * 4 + c div 64) # base64_char (c mod 64) # base64_encode rest"
| "base64_encode [a, b] =
     [base64_char (a div 4), base64_char ((a mod 4) * 16 + b div 16),
      base64_char ((b mod 16) * 4), CHR ''='']"
| "base64_encode [a] = [base64_char (a div 4), base64_char ((a mod 4) * 16), CHR ''='', CHR ''='']"
| "base64_encode [] = []"

definition toString_base64 :: "buffer \<Rightarrow> string" where
  "toString_base64 b = base64_encode (map unat b)"

subsection \<open>The handler (lines 50 to 224)\<close>

text \<open>
  \<open>request.data\<close> is an object with the three fields the handler reads, each a string
  or absent, or it is \<open>null\<close> (the callable protocol always supplies the data field,
  and null is a value it may have). Line 52 destructures it: for \<open>null\<close> that statement
  throws a TypeError inside the outer \<open>try\<close> block, with the message of the JavaScript
  engine. The response of the source has a field \<open>sourceEncoding\<close> too; it is called
  \<open>usedEncoding\<close> here to keep it apart from the field of the request.
\<close>

record request =
  filePath :: "string option"
  fileContent :: "string option"
  sourceEncoding :: "string option"

record response =
  success :: bool
  originalPath :: string
  convertedPath :: string
  convertedContent :: string
  usedEncoding :: string
  message :: string

datatype https_error = HttpsError string string

text \<open>What the body of the outer \<open>try\<close> block can throw.\<close>

datatype thrown = ThrownHttps https_error | ThrownError jserror

text \<open>Lines 82 and 83: the name of the converted file.\<close>

definition outputPath :: "string \<Rightarrow> string" where
  "outputPath file = (let parsedPath = path_parse file in name parsedPath @ ''-utf8'' @ ext parsedPath)"

text \<open>
  Lines 89 to 184: the encoding is the source encoding of the request when that is
  truthy (present and not the empty string) and the result of the detection otherwise;
  then the buffer is decoded with it, and an error of that call is not caught here.
\<close>

definition resolve ::
  "runtime \<Rightarrow> buffer \<Rightarrow> string option \<Rightarrow> event list \<Rightarrow> (jserror + string \<times> jsstring) \<times> event list" where
  "resolve rt buf hint evs =
     (let auto = (let d = detect rt buf evs in (bestEncoding d, events d));
          (detectedEncoding, evs1) =
             (case hint of None \<Rightarrow> auto | Some h \<Rightarrow> if h = [] then auto else (h, evs));
          evs2 = evs1 @ [LogInfo ''Encoding detection'', IconvDecode detectedEncoding]
      in case iconv_decode rt buf detectedEncoding of
           Inl err \<Rightarrow> (Inl err, evs2)
         | Inr decodedText \<Rightarrow> (Inr (detectedEncoding, decodedText), evs2))"

definition handler_body :: "runtime \<Rightarrow> request option \<Rightarrow> (thrown + response) \<times> event list" where
  "handler_body rt data =
     (case data of
        None \<Rightarrow>
          (Inl (ThrownError (Error
             ''Cannot destructure property 'filePath' of 'request.data' as it is null.'')), [])
      | Some req \<Rightarrow>
     (case filePath req of
        None \<Rightarrow> (Inl (ThrownHttps (HttpsError ''invalid-argument'' ''File path is required'')), [])
      | Some file \<Rightarrow>
     if file = [] then (Inl (ThrownHttps (HttpsError ''invalid-argument'' ''File path is required'')), [])
     else
     (case fileContent req of
        None \<Rightarrow> (Inl (ThrownHttps (HttpsError ''invalid-argument'' ''File content is required'')), [])
      | Some content \<Rightarrow>
     if content = [] then (Inl (ThrownHttps (HttpsError ''invalid-argument'' ''File content is required'')), [])
     else if \<not> suffix ''.sql'' file
     then (Inl (ThrownHttps (HttpsError ''invalid-argument'' ''File must have .sql extension'')), [])
     else
       (let buf = Buffer_from_base64 content
        in case resolve rt buf (sourceEncoding req) [LogInfo ''Starting UTF-8 conversion''] of
             (Inl err, evs) \<Rightarrow> (Inl (ThrownError err), evs)
           | (Inr (detectedEncoding, decodedText), evs) \<Rightarrow>
               (let utf8Buffer = Buffer_from_utf8 decodedText;
                    base64Content = toString_base64 utf8Buffer
                in (Inr \<lparr>success = True, originalPath = file, convertedPath = outputPath file,
                         convertedContent = base64Content, usedEncoding = detectedEncoding,
                         message = ''Successfully converted '' @ file @ '' from '' @
                                   detectedEncoding @ '' to UTF-8''\<rparr>,
                    evs @ [LogInfo ''Conversion completed successfully'']))))))"

text \<open>
  The outer \<open>catch\<close> block: every error is logged; an HttpsError is thrown again as it
  is, any other error is wrapped into an HttpsError of kind internal.
\<close>

definition convertToUtf8 :: "runtime \<Rightarrow> request option \<Rightarrow> (https_error + response) \<times> event list" where
  "convertToUtf8 rt data =
     (case handler_body rt data of
        (Inr res, evs) \<Rightarrow> (Inr res, evs)
      | (Inl (ThrownHttps e), evs) \<Rightarrow> (Inl e, evs @ [LogError ''Failed to convert file to UTF-8''])
      | (Inl (ThrownError (Error msg)), evs) \<Rightarrow>
          (Inl (HttpsError ''internal'' (''Failed to convert file to UTF-8: '' @ msg)),
           evs @ [LogError ''Failed to convert file to UTF-8'']))"

text \<open>The score a candidate gets in the loop: none when decoding throws.\<close>

definition candidate_score :: "runtime \<Rightarrow> buffer \<Rightarrow> string \<Rightarrow> int option" where
  "candidate_score rt buf encoding =
     (case iconv_decode rt buf encoding of Inl err \<Rightarrow> None | Inr decoded \<Rightarrow> Some (score rt decoded))"

subsection \<open>A runtime for worked examples\<close>

text \<open>
  Modelled from the spec: iconv-lite is not under src/; the spec names its encodings and
  says that the decoder of a name either returns text or raises. For the worked examples
  below this is the part of iconv-lite that the 25 names of the catalog reach: UTF-8 with
  U+FFFD for every ill-formed sequence, UTF-16 and UTF-32 in both byte orders (an
  incomplete trailing unit is dropped, a UTF-32 value above 0x10FFFF becomes U+FFFD), and
  the single-byte pages, which all map a byte below 0x80 to the same code unit. The upper
  halves of the single-byte pages are a parameter. UTF-8, UTF-16 and UTF-32 drop one
  leading byte order mark. Names outside the catalog are not part of this fragment: it
  treats each of them like a name the codec has no table for, for which decoding throws,
  and the examples use only one such name, which iconv-lite does not know either.
\<close>

definition strip_bom :: "nat list \<Rightarrow> nat list" where
  "strip_bom s = (case s of [] \<Rightarrow> [] | u # rest \<Rightarrow> if u = 0xFEFF then rest else u # rest)"

definition is_continuation :: "nat \<Rightarrow> bool" where
  "is_continuation b = (0x80 \<le> b \<and> b < 0xC0)"

definition code_units :: "nat \<Rightarrow> nat list" where
  "code_units cp =
     (if cp < 0x10000 then [cp]
      else [0xD800 + (cp - 0x10000) div 1024, 0xDC00 + (cp - 0x10000) mod 1024])"

fun utf8_decode :: "nat list \<Rightarrow> nat list" where
  "utf8_decode [] = []"
| "utf8_decode (b # bs) =
     (if b < 0x80 then b # utf8_decode bs
      else if 0xC2 \<le> b \<and> b < 0xE0 then
        (case bs of
           [] \<Rightarrow> [0xFFFD]
         | c1 # r1 \<Rightarrow>
             if is_continuation c1 then ((b - 0xC0) * 64 + (c1 - 0x80)) # utf8_decode r1
             else 0xFFFD # utf8_decode bs)
      else if 0xE0 \<le> b \<and> b < 0xF0 then
        (case bs of
           [] \<Rightarrow> [0xFFFD]
         | c1 # r1 \<Rightarrow>
             if (if b = 0xE0 then 0xA0 else 0x80) \<le> c1 \<and> c1 \<le> (if b = 0xED then 0x9F else 0xBF)
             then (case r1 of
                     [] \<Rightarrow> [0xFFFD]
                   | c2 # r2 \<Rightarrow>
                       if is_continuation c2
                       then ((b - 0xE0) * 4096 + (c1 - 0x80) * 64 + (c2 - 0x80)) # utf8_decode r2
                       else 0xFFFD # utf8_decode r1)
             else 0xFFFD # utf8_decode bs)
      else if 0xF0 \<le> b \<and> b < 0xF5 then
        (case bs of
           [] \<Rightarrow> [0xFFFD]
         | c1 # r1 \<Rightarrow>
             if (if b = 0xF0 then 0x90 else 0x80) \<le> c1 \<and> c1 \<le> (if b = 0xF4 then 0x8F else 0xBF)
             then (case r1 of
                     [] \<Rightarrow> [0xFFFD]
                   | c2 # r2 \<Rightarrow>
                       if is_continuation c2
                       then (case r2 of
                               [] \<Rightarrow> [0xFFFD]
                             | c3 # r3 \<Rightarrow>
                                 if is_continuation c3
                                 then code_units ((b - 0xF0) * 262144 + (c1 - 0x80) * 4096 +
                                        (c2 - 0x80) * 64 + (c3 - 0x80)) @ utf8_decode r3
                                 else 0xFFFD # utf8_decode r2)
                       else 0xFFFD # utf8_decode r1)
             else 0xFFFD # utf8_decode bs)
      else 0xFFFD # utf8_decode bs)"

fun utf16le_decode :: "nat list \<Rightarrow> nat list" where
  "utf16le_decode (a # b # rest) = (a + 256 * b) # utf16le_decode rest"
| "utf16le_decode [a] = []"
| "utf16le_decode [] = []"

fun utf16be_decode :: "nat list \<Rightarrow> nat list" where
  "utf16be_decode (a # b # rest) = (256 * a + b) # utf16be_decode rest"
| "utf16be_decode [a] = []"
| "utf16be_decode [] = []"

definition utf32_units :: "nat \<Rightarrow> nat list" where
  "utf32_units cp = (if 0x10FFFF < cp then [0xFFFD] else code_units cp)"

fun utf32le_decode :: "nat list \<Rightarrow> nat list" where
  "utf32le_decode (a # b # c # d # rest) =
     utf32_units (a + 256 * b + 65536 * c + 16777216 * d) @ utf32le_decode rest"
| "utf32le_decode [a, b, c] = []"
| "utf32le_decode [a, b] = []"
| "utf32le_decode [a] = []"
| "utf32le_decode [] = []"

fun utf32be_decode :: "nat list \<Rightarrow> nat list" where
  "utf32be_decode (a # b # c # d # rest) =
     utf32_units (16777216 * a + 65536 * b + 256 * c + d) @ utf32be_decode rest"
| "utf32be_decode [a, b, c] = []"
| "utf32be_decode [a, b] = []"
| "utf32be_decode [a] = []"
| "utf32be_decode [] = []"

definition single_byte_names :: "string list" where
  "single_byte_names =
     [''windows-1251'', ''cp1251'', ''windows-1252'', ''cp1252'', ''iso-8859-1'', ''latin1'',
      ''iso-8859-2'', ''latin2'', ''iso-8859-5'', ''cyrillic'', ''koi8-r'', ''koi8-u'',
      ''cp866'', ''ibm866'', ''cp850'', ''ibm850'', ''macintosh'', ''mac'', ''ascii'']"

definition iconv_lite :: "(string \<Rightarrow> byte \<Rightarrow> 16 word) \<Rightarrow> buffer \<Rightarrow> string \<Rightarrow> jserror + jsstring" where
  "iconv_lite upper_half buf encoding =
     (if encoding = ''utf8'' \<or> encoding = ''utf-8''
      then Inr (map of_nat (strip_bom (utf8_decode (map unat buf))))
      else if encoding = ''utf-16le'' then Inr (map of_nat (strip_bom (utf16le_decode (map unat buf))))
      else if encoding = ''utf-16be'' then Inr (map of_nat (strip_bom (utf16be_decode (map unat buf))))
      else if encoding = ''utf-32le'' then Inr (map of_nat (strip_bom (utf32le_decode (map unat buf))))
      else if encoding = ''utf-32be'' then Inr (map of_nat (strip_bom (utf32be_decode (map unat buf))))
      else if encoding \<in> set single_byte_names
      then Inr (map (\<lambda>b. if b < 0x80 then ucast b else upper_half encoding b) buf)
      else Inl (Error (''Encoding not recognized: '' @ encoding)))"

text \<open>
  Modelled from the spec: \<open>String.prototype.toUpperCase\<close> belongs to the JavaScript
  runtime; the spec asks for a case-insensitive keyword test. This is its action on strings
  whose only cased letters are the ASCII letters: a to z become A to Z and every other code
  unit stays.
\<close>

definition toUpperCase_ascii :: "jsstring \<Rightarrow> jsstring" where
  "toUpperCase_ascii s = map (\<lambda>c. if 0x61 \<le> c \<and> c \<le> 0x7A then c - 0x20 else c) s"

text \<open>
  The upper halves are not consulted for a buffer of bytes below 0x80; the examples on such
  buffers use this placeholder.
\<close>

definition no_upper_half :: "string \<Rightarrow> byte \<Rightarrow> 16 word" where
  "no_upper_half encoding b = 0xFFFD"

definition node_runtime :: runtime where
  "node_runtime = \<lparr>iconv_decode = iconv_lite no_upper_half, toUpperCase = toUpperCase_ascii\<rparr>"

text \<open>
  A codec build without UTF-32 tables: decoding with either UTF-32 name throws, as with
  every name the codec has no table for.
\<close>

definition runtime_without_utf32 :: runtime where
  "runtime_without_utf32 =
     node_runtime\<lparr>iconv_decode :=
       (\<lambda>buf encoding.
          if encoding = ''utf-32le'' \<or> encoding = ''utf-32be''
          then Inl (Error (''Encoding not recognized: '' @ encoding))
          else iconv_lite no_upper_half buf encoding)\<rparr>"

text \<open>A codec build that has UTF-8 only.\<close>

definition utf8_only_runtime :: runtime where
  "utf8_only_runtime =
     node_runtime\<lparr>iconv_decode :=
       (\<lambda>buf encoding.
          if encoding = ''utf8'' \<or> encoding = ''utf-8''
          then iconv_lite no_upper_half buf encoding
          else Inl (Error (''Encoding not recognized: '' @ encoding)))\<rparr>"

text \<open>The bytes of an ASCII text.\<close>

definition bytes_of :: "string \<Rightarrow> buffer" where
  "bytes_of s = map of_char s"

text \<open>
  A JavaScript string in which every surrogate code unit belongs to a pair (a high
  surrogate followed by a low one).
\<close>

fun paired_surrogates :: "nat list \<Rightarrow> bool" where
  "paired_surrogates [] = True"
| "paired_surrogates [u] = (\<not> is_high_surrogate u \<and> \<not> is_low_surrogate u)"
| "paired_surrogates (u # l # rest) =
     (if is_high_surrogate u then is_low_surrogate l \<and> paired_surrogates rest
      else \<not> is_low_surrogate u \<and> paired_surrogates (l # rest))"

section \<open>Properties\<close>

subsection \<open>The score\<close>

lemma match_g_length: "length (or_empty (match_g cls s)) = length (filter cls s)"
  by (cases "filter cls s") (simp_all add: match_g_def or_empty_def)

lemma replacementCharCount_eq: "replacementCharCount decoded = count_list decoded 0xFFFD"
proof -
  have "is_replacement = (=) 0xFFFD"
    by (auto simp: is_replacement_def fun_eq_iff)
  then show ?thesis
    by (simp add: replacementCharCount_def match_g_length count_list_eq_length_filter)
qed

lemma js_includes_sublist: "js_includes s k = sublist k s"
proof (induction s)
  case Nil
  then show ?case by auto
next
  case (Cons c cs)
  then show ?case by (simp add: sublist_Cons_right)
qed

lemma foldl_count: "foldl (\<lambda>count k. count + (if P k then 1 else 0)) n ks = n + length (filter P ks)"
  by (induction ks arbitrary: n) simp_all

lemma distinct_sqlKeywords: "distinct sqlKeywords"
  by (simp add: sqlKeywords_def js_def)

lemma card_filter_distinct: "distinct ks \<Longrightarrow> card {k \<in> set ks. P k} = length (filter P ks)"
  using distinct_card [of "filter P ks"] by simp

lemma sqlKeywordCount_card:
  "sqlKeywordCount rt decoded = card {k \<in> set sqlKeywords. sublist k (toUpperCase rt decoded)}"
  by (simp add: sqlKeywordCount_def foldl_count js_includes_sublist
      card_filter_distinct [OF distinct_sqlKeywords])

lemma printableRatio_greater:
  "js_greater (printableRatio decoded) q \<longleftrightarrow>
     decoded \<noteq> [] \<and> q < of_nat (printableChars decoded) / of_nat (length decoded)"
proof (cases "decoded = []")
  case True
  then show ?thesis
    by (simp add: printableRatio_def js_divide_def printableChars_def replace_g_empty_def)
next
  case False
  then show ?thesis
    by (simp add: printableRatio_def js_divide_def)
qed

lemma score_eq:
  "score rt decoded =
     (if count_list decoded 0xFFFD = 0 then 100 else - 10 * int (count_list decoded 0xFFFD))
     + (if length decoded > 0 then 50 else 0)
     + 5 * int (card {k \<in> set sqlKeywords. sublist k (toUpperCase rt decoded)})
     + (if decoded \<noteq> [] \<and>
           8 / 10 < (of_nat (length (filter (\<lambda>c. \<not> (c \<le> 0x1F \<or> 0x7F \<le> c \<and> c \<le> 0x9F)) decoded))
                      / of_nat (length decoded) :: rat)
        then 30 else 0)
     + int (min (length (filter (\<lambda>c. c \<in> {0x3B, 0x28, 0x29, 0x2C, 0x27, 0x22}) decoded)) 20)"
proof -
  have ctl: "printableChars decoded =
      length (filter (\<lambda>c. \<not> (c \<le> 0x1F \<or> 0x7F \<le> c \<and> c \<le> 0x9F)) decoded)"
    by (simp add: printableChars_def replace_g_empty_def is_control_def)
  have sqlc: "sqlCharCount decoded =
      length (filter (\<lambda>c. c \<in> {0x3B, 0x28, 0x29, 0x2C, 0x27, 0x22}) decoded)"
    by (simp add: sqlCharCount_def match_g_length is_sqlChar_def [abs_def])
  show ?thesis
    unfolding score_def Let_def printableRatio_greater replacementCharCount_eq
      sqlKeywordCount_card ctl sqlc
    by simp
qed

subsection \<open>The loop\<close>

lemma try_encoding_None:
  "candidate_score rt buf e = None \<Longrightarrow>
     try_encoding rt buf e st = st\<lparr>events := events st @ [IconvDecode e]\<rparr>"
  by (auto simp: candidate_score_def try_encoding_def split: sum.splits)

lemma try_encoding_Some:
  "candidate_score rt buf e = Some v \<Longrightarrow>
     try_encoding rt buf e st =
       (if bestScore st < v
        then st\<lparr>events := events st @ [IconvDecode e, LogDebug e v], bestScore := v, bestEncoding := e\<rparr>
        else st\<lparr>events := events st @ [IconvDecode e, LogDebug e v]\<rparr>)"
  by (auto simp: candidate_score_def try_encoding_def Let_def split: sum.splits)

lemma detect_loop_cases:
  "(bestEncoding (detect_loop rt buf encs st) = bestEncoding st \<and>
    bestScore (detect_loop rt buf encs st) = bestScore st \<and>
    (\<forall>e \<in> set encs. \<forall>v. candidate_score rt buf e = Some v \<longrightarrow> v \<le> bestScore st))
   \<or> (\<exists>pre e post v. encs = pre @ e # post \<and> candidate_score rt buf e = Some v \<and>
         bestScore st < v \<and>
         bestEncoding (detect_loop rt buf encs st) = e \<and>
         bestScore (detect_loop rt buf encs st) = v \<and>
         (\<forall>e' \<in> set pre. \<forall>v'. candidate_score rt buf e' = Some v' \<longrightarrow> v' < v) \<and>
         (\<forall>e' \<in> set post. \<forall>v'. candidate_score rt buf e' = Some v' \<longrightarrow> v' \<le> v))"
proof (induction encs arbitrary: st)
  case Nil
  then show ?case by simp
next
  case (Cons a encs)
  let ?st' = "try_encoding rt buf a st"
  let ?r = "detect_loop rt buf encs ?st'"
  have res: "detect_loop rt buf (a # encs) st = ?r" by simp
  show ?case
  proof (cases "\<exists>v. candidate_score rt buf a = Some v \<and> bestScore st < v")
    case True
    then obtain v where v: "candidate_score rt buf a = Some v" "bestScore st < v" by blast
    then have st': "bestEncoding ?st' = a" "bestScore ?st' = v"
      by (simp_all add: try_encoding_Some)
    from Cons.IH [of ?st'] show ?thesis
    proof (elim disjE exE conjE)
      assume h: "bestEncoding ?r = bestEncoding ?st'" "bestScore ?r = bestScore ?st'"
        "\<forall>e \<in> set encs. \<forall>v. candidate_score rt buf e = Some v \<longrightarrow> v \<le> bestScore ?st'"
      have "a # encs = [] @ a # encs \<and> candidate_score rt buf a = Some v \<and> bestScore st < v \<and>
         bestEncoding ?r = a \<and> bestScore ?r = v \<and>
         (\<forall>e' \<in> set []. \<forall>v'. candidate_score rt buf e' = Some v' \<longrightarrow> v' < v) \<and>
         (\<forall>e' \<in> set encs. \<forall>v'. candidate_score rt buf e' = Some v' \<longrightarrow> v' \<le> v)"
        using h v st' by simp
      then show ?thesis unfolding res by blast
    next
      fix pre e post w
      assume h: "encs = pre @ e # post" "candidate_score rt buf e = Some w" "bestScore ?st' < w"
        "bestEncoding ?r = e" "bestScore ?r = w"
        "\<forall>e' \<in> set pre. \<forall>v'. candidate_score rt buf e' = Some v' \<longrightarrow> v' < w"
        "\<forall>e' \<in> set post. \<forall>v'. candidate_score rt buf e' = Some v' \<longrightarrow> v' \<le> w"
      have "a # encs = (a # pre) @ e # post \<and> candidate_score rt buf e = Some w \<and> bestScore st < w \<and>
         bestEncoding ?r = e \<and> bestScore ?r = w \<and>
         (\<forall>e' \<in> set (a # pre). \<forall>v'. candidate_score rt buf e' = Some v' \<longrightarrow> v' < w) \<and>
         (\<forall>e' \<in> set post. \<forall>v'. candidate_score rt buf e' = Some v' \<longrightarrow> v' \<le> w)"
        using h v st' by auto
      then show ?thesis unfolding res by blast
    qed
  next
    case False
    then have lo: "\<And>v. candidate_score rt buf a = Some v \<Longrightarrow> v \<le> bestScore st"
      by force
    have st': "bestEncoding ?st' = bestEncoding st" "bestScore ?st' = bestScore st"
      using lo by (cases "candidate_score rt buf a"; simp add: try_encoding_None try_encoding_Some)+
    from Cons.IH [of ?st'] show ?thesis
    proof (elim disjE exE conjE)
      assume h: "bestEncoding ?r = bestEncoding ?st'" "bestScore ?r = bestScore ?st'"
        "\<forall>e \<in> set encs. \<forall>v. candidate_score rt buf e = Some v \<longrightarrow> v \<le> bestScore ?st'"
      then show ?thesis unfolding res using st' lo by auto
    next
      fix pre e post w
      assume h: "encs = pre @ e # post" "candidate_score rt buf e = Some w" "bestScore ?st' < w"
        "bestEncoding ?r = e" "bestScore ?r = w"
        "\<forall>e' \<in> set pre. \<forall>v'. candidate_score rt buf e' = Some v' \<longrightarrow> v' < w"
        "\<forall>e' \<in> set post. \<forall>v'. candidate_score rt buf e' = Some v' \<longrightarrow> v' \<le> w"
      have "a # encs = (a # pre) @ e # post \<and> candidate_score rt buf e = Some w \<and> bestScore st < w \<and>
         bestEncoding ?r = e \<and> bestScore ?r = w \<and>
         (\<forall>e' \<in> set (a # pre). \<forall>v'. candidate_score rt buf e' = Some v' \<longrightarrow> v' < w) \<and>
         (\<forall>e' \<in> set post. \<forall>v'. candidate_score rt buf e' = Some v' \<longrightarrow> v' \<le> w)"
        using h st' lo by fastforce
      then show ?thesis unfolding res by blast
    qed
  qed
qed

lemma detect_best:
  "bestEncoding (detect rt buf evs) =
     bestEncoding (detect_loop rt buf encodingsToTry \<lparr>bestEncoding = ''utf8'', bestScore = 0, events = evs\<rparr>)"
  "bestScore (detect rt buf evs) =
     bestScore (detect_loop rt buf encodingsToTry \<lparr>bestEncoding = ''utf8'', bestScore = 0, events = evs\<rparr>)"
  by (simp_all add: detect_def Let_def)

lemma detect_cases:
  "(bestEncoding (detect rt buf evs) = ''utf8'' \<and> bestScore (detect rt buf evs) = 0 \<and>
    (\<forall>e \<in> set encodingsToTry. \<forall>v. candidate_score rt buf e = Some v \<longrightarrow> v \<le> 0))
   \<or> (\<exists>pre e post v. encodingsToTry = pre @ e # post \<and> candidate_score rt buf e = Some v \<and>
         0 < v \<and> bestEncoding (detect rt buf evs) = e \<and> bestScore (detect rt buf evs) = v \<and>
         (\<forall>e' \<in> set pre. \<forall>v'. candidate_score rt buf e' = Some v' \<longrightarrow> v' < v) \<and>
         (\<forall>e' \<in> set post. \<forall>v'. candidate_score rt buf e' = Some v' \<longrightarrow> v' \<le> v))"
  using detect_loop_cases [of rt buf encodingsToTry "\<lparr>bestEncoding = ''utf8'', bestScore = 0, events = evs\<rparr>"]
  unfolding detect_best by simp

lemma try_encoding_mono: "bestScore st \<le> bestScore (try_encoding rt buf e st)"
  by (cases "candidate_score rt buf e") (simp_all add: try_encoding_None try_encoding_Some)

lemma detect_winner_decodes:
  assumes "iconv_decode rt buf ''utf8'' = Inr text0"
  shows "\<exists>text. iconv_decode rt buf (bestEncoding (detect rt buf evs)) = Inr text"
proof -
  from detect_cases [of rt buf evs] show ?thesis
  proof (elim disjE exE conjE)
    assume "bestEncoding (detect rt buf evs) = ''utf8''"
    with assms show ?thesis by simp
  next
    fix pre e post v
    assume "candidate_score rt buf e = Some v" "bestEncoding (detect rt buf evs) = e"
    then show ?thesis
      by (auto simp: candidate_score_def split: sum.splits)
  qed
qed

lemma resolve_auto:
  "hint = None \<or> hint = Some [] \<Longrightarrow>
   resolve rt buf hint evs =
     (case iconv_decode rt buf (bestEncoding (detect rt buf evs)) of
        Inl err \<Rightarrow> Inl err
      | Inr text \<Rightarrow> Inr (bestEncoding (detect rt buf evs), text),
      events (detect rt buf evs) @
        [LogInfo ''Encoding detection'', IconvDecode (bestEncoding (detect rt buf evs))])"
  by (auto simp: resolve_def Let_def split: sum.splits)

lemma resolve_hint:
  "h \<noteq> [] \<Longrightarrow>
   resolve rt buf (Some h) evs =
     (case iconv_decode rt buf h of Inl err \<Rightarrow> Inl err | Inr text \<Rightarrow> Inr (h, text),
      evs @ [LogInfo ''Encoding detection'', IconvDecode h])"
  by (auto simp: resolve_def Let_def split: sum.splits)

subsection \<open>The calls of the decoder and the debug lines of a run\<close>

lemma try_encoding_decodes:
  "filter is_IconvDecode (events (try_encoding rt buf e st)) =
     filter is_IconvDecode (events st) @ [IconvDecode e]"
  by (cases "candidate_score rt buf e") (simp_all add: try_encoding_None try_encoding_Some)

lemma detect_loop_decodes:
  "filter is_IconvDecode (events (detect_loop rt buf encs st)) =
     filter is_IconvDecode (events st) @ map IconvDecode encs"
  by (induction encs arbitrary: st) (simp_all add: try_encoding_decodes)

lemma detect_decodes:
  "filter is_IconvDecode (events (detect rt buf evs)) =
     filter is_IconvDecode evs @ map IconvDecode encodingsToTry"
  by (simp add: detect_def Let_def detect_loop_decodes)

lemma try_encoding_debug:
  "filter is_LogDebug (events (try_encoding rt buf e st)) =
     filter is_LogDebug (events st) @
       (case candidate_score rt buf e of None \<Rightarrow> [] | Some v \<Rightarrow> [LogDebug e v])"
  by (cases "candidate_score rt buf e") (simp_all add: try_encoding_None try_encoding_Some)

lemma detect_loop_debug:
  "filter is_LogDebug (events (detect_loop rt buf encs st)) =
     filter is_LogDebug (events st) @
       concat (map (\<lambda>e. case candidate_score rt buf e of None \<Rightarrow> [] | Some v \<Rightarrow> [LogDebug e v]) encs)"
  by (induction encs arbitrary: st) (simp_all add: try_encoding_debug)

lemma detect_debug:
  "filter is_LogDebug (events (detect rt buf evs)) =
     filter is_LogDebug evs @
       concat (map (\<lambda>e. case candidate_score rt buf e of None \<Rightarrow> [] | Some v \<Rightarrow> [LogDebug e v])
         encodingsToTry)"
  by (simp add: detect_def Let_def detect_loop_debug)

lemma convertToUtf8_auto:
  assumes "filePath req = Some file" and "file \<noteq> []" and "suffix ''.sql'' file"
    and "fileContent req = Some content" and "content \<noteq> []"
    and "sourceEncoding req = None \<or> sourceEncoding req = Some []"
    and "iconv_decode rt (Buffer_from_base64 content)
           (bestEncoding (detect rt (Buffer_from_base64 content) [LogInfo ''Starting UTF-8 conversion'']))
         = Inr decodedText"
  shows "convertToUtf8 rt (Some req) =
     (Inr \<lparr>success = True, originalPath = file, convertedPath = outputPath file,
           convertedContent = toString_base64 (Buffer_from_utf8 decodedText),
           usedEncoding =
             bestEncoding (detect rt (Buffer_from_base64 content) [LogInfo ''Starting UTF-8 conversion'']),
           message = ''Successfully converted '' @ file @ '' from '' @
             bestEncoding (detect rt (Buffer_from_base64 content) [LogInfo ''Starting UTF-8 conversion''])
             @ '' to UTF-8''\<rparr>,
      events (detect rt (Buffer_from_base64 content) [LogInfo ''Starting UTF-8 conversion'']) @
        [LogInfo ''Encoding detection'',
         IconvDecode (bestEncoding (detect rt (Buffer_from_base64 content) [LogInfo ''Starting UTF-8 conversion''])),
         LogInfo ''Conversion completed successfully''])"
  using assms by (simp add: convertToUtf8_def handler_body_def resolve_auto Let_def)

subsection \<open>Worked examples: candidates of three buffers in the example runtime\<close>

lemma single_byte_not_unicode:
  "e \<in> set single_byte_names \<Longrightarrow>
     e \<noteq> ''utf8'' \<and> e \<noteq> ''utf-8'' \<and> e \<noteq> ''utf-16le'' \<and> e \<noteq> ''utf-16be'' \<and>
     e \<noteq> ''utf-32le'' \<and> e \<noteq> ''utf-32be''"
  by (auto simp: single_byte_names_def)

lemma iconv_lite_single_byte:
  "e \<in> set single_byte_names \<Longrightarrow>
     iconv_lite upper_half buf e = Inr (map (\<lambda>b. if b < 0x80 then ucast b else upper_half e b) buf)"
  using single_byte_not_unicode [of e] by (simp add: iconv_lite_def)

lemma sql_decoded:
  "iconv_decode node_runtime (bytes_of ''SELECT * FROM t;'') ''utf8'' = Inr (js ''SELECT * FROM t;'')"
  "iconv_decode node_runtime (bytes_of ''SELECT * FROM t;'') ''utf-8'' = Inr (js ''SELECT * FROM t;'')"
  "e \<in> set single_byte_names \<Longrightarrow>
     iconv_decode node_runtime (bytes_of ''SELECT * FROM t;'') e = Inr (js ''SELECT * FROM t;'')"
  "iconv_decode node_runtime (bytes_of ''SELECT * FROM t;'') ''utf-16le'' =
     Inr [0x4553, 0x454C, 0x5443, 0x2A20, 0x4620, 0x4F52, 0x204D, 0x3B74]"
  "iconv_decode node_runtime (bytes_of ''SELECT * FROM t;'') ''utf-16be'' =
     Inr [0x5345, 0x4C45, 0x4354, 0x202A, 0x2046, 0x524F, 0x4D20, 0x743B]"
  "iconv_decode node_runtime (bytes_of ''SELECT * FROM t;'') ''utf-32le'' =
     Inr [0xFFFD, 0xFFFD, 0xFFFD, 0xFFFD]"
  "iconv_decode node_runtime (bytes_of ''SELECT * FROM t;'') ''utf-32be'' =
     Inr [0xFFFD, 0xFFFD, 0xFFFD, 0xFFFD]"
  by (simp_all add: node_runtime_def iconv_lite_single_byte)
     (simp_all add: iconv_lite_def bytes_of_def strip_bom_def js_def utf32_units_def)

lemma sql_score:
  "score node_runtime (js ''SELECT * FROM t;'') = 191"
  "score node_runtime [0x4553, 0x454C, 0x5443, 0x2A20, 0x4620, 0x4F52, 0x204D, 0x3B74] = 180"
  "score node_runtime [0x5345, 0x4C45, 0x4354, 0x202A, 0x2046, 0x524F, 0x4D20, 0x743B] = 180"
  "score node_runtime [0xFFFD, 0xFFFD, 0xFFFD, 0xFFFD] = 40"
  by code_simp+

lemma sql_candidates:
  "candidate_score node_runtime (bytes_of ''SELECT * FROM t;'') ''utf8'' = Some 191"
  "candidate_score node_runtime (bytes_of ''SELECT * FROM t;'') ''utf-8'' = Some 191"
  "e \<in> set single_byte_names \<Longrightarrow>
     candidate_score node_runtime (bytes_of ''SELECT * FROM t;'') e = Some 191"
  "candidate_score node_runtime (bytes_of ''SELECT * FROM t;'') ''utf-16le'' = Some 180"
  "candidate_score node_runtime (bytes_of ''SELECT * FROM t;'') ''utf-16be'' = Some 180"
  "candidate_score node_runtime (bytes_of ''SELECT * FROM t;'') ''utf-32le'' = Some 40"
  "candidate_score node_runtime (bytes_of ''SELECT * FROM t;'') ''utf-32be'' = Some 40"
  by (simp_all add: candidate_score_def sql_decoded sql_score)

lemma sql_detect:
  "bestEncoding (detect node_runtime (bytes_of ''SELECT * FROM t;'') []) = ''utf8''"
  "bestScore (detect node_runtime (bytes_of ''SELECT * FROM t;'') []) = 191"
  by (simp_all add: detect_def encodingsToTry_def try_encoding_Some sql_candidates
      single_byte_names_def)
lemma lines_decoded:
  "iconv_decode node_runtime [0x41, 0x0A, 0x42, 0x0A] ''utf8'' = Inr [0x41, 0x0A, 0x42, 0x0A]"
  "iconv_decode node_runtime [0x41, 0x0A, 0x42, 0x0A] ''utf-8'' = Inr [0x41, 0x0A, 0x42, 0x0A]"
  "e \<in> set single_byte_names \<Longrightarrow>
     iconv_decode node_runtime [0x41, 0x0A, 0x42, 0x0A] e = Inr [0x41, 0x0A, 0x42, 0x0A]"
  "iconv_decode node_runtime [0x41, 0x0A, 0x42, 0x0A] ''utf-16le'' = Inr [0x0A41, 0x0A42]"
  "iconv_decode node_runtime [0x41, 0x0A, 0x42, 0x0A] ''utf-16be'' = Inr [0x410A, 0x420A]"
  "iconv_decode node_runtime [0x41, 0x0A, 0x42, 0x0A] ''utf-32le'' = Inr [0xFFFD]"
  "iconv_decode node_runtime [0x41, 0x0A, 0x42, 0x0A] ''utf-32be'' = Inr [0xFFFD]"
  by (simp_all add: node_runtime_def iconv_lite_single_byte)
     (simp_all add: iconv_lite_def strip_bom_def utf32_units_def)

lemma lines_score:
  "score node_runtime [0x41, 0x0A, 0x42, 0x0A] = 150"
  "score node_runtime [0x0A41, 0x0A42] = 180"
  "score node_runtime [0x410A, 0x420A] = 180"
  "score node_runtime [0xFFFD] = 70"
  by code_simp+

lemma lines_candidates:
  "candidate_score node_runtime [0x41, 0x0A, 0x42, 0x0A] ''utf8'' = Some 150"
  "candidate_score node_runtime [0x41, 0x0A, 0x42, 0x0A] ''utf-8'' = Some 150"
  "e \<in> set single_byte_names \<Longrightarrow>
     candidate_score node_runtime [0x41, 0x0A, 0x42, 0x0A] e = Some 150"
  "candidate_score node_runtime [0x41, 0x0A, 0x42, 0x0A] ''utf-16le'' = Some 180"
  "candidate_score node_runtime [0x41, 0x0A, 0x42, 0x0A] ''utf-16be'' = Some 180"
  "candidate_score node_runtime [0x41, 0x0A, 0x42, 0x0A] ''utf-32le'' = Some 70"
  "candidate_score node_runtime [0x41, 0x0A, 0x42, 0x0A] ''utf-32be'' = Some 70"
  by (simp_all add: candidate_score_def lines_decoded lines_score)

lemma lines_detect:
  "bestEncoding (detect node_runtime [0x41, 0x0A, 0x42, 0x0A] evs) = ''utf-16le''"
  "bestScore (detect node_runtime [0x41, 0x0A, 0x42, 0x0A] evs) = 180"
  by (simp_all add: detect_def encodingsToTry_def try_encoding_Some lines_candidates
      single_byte_names_def)

lemma empty_decoded:
  "e \<in> set encodingsToTry \<Longrightarrow> iconv_decode node_runtime [] e = Inr []"
  by (auto simp: node_runtime_def iconv_lite_def strip_bom_def encodingsToTry_def
      single_byte_names_def)

lemma empty_score: "score node_runtime [] = 100"
  by code_simp

lemma empty_candidates:
  "e \<in> set encodingsToTry \<Longrightarrow> candidate_score node_runtime [] e = Some 100"
  by (simp add: candidate_score_def empty_decoded empty_score)

lemma empty_detect:
  "bestEncoding (detect node_runtime [] evs) = ''utf8''"
  "bestScore (detect node_runtime [] evs) = 100"
  by (simp_all add: detect_def encodingsToTry_def try_encoding_Some
      empty_candidates [unfolded encodingsToTry_def])

lemma a_sql_suffix: "suffix ''.sql'' ''a.sql''"
  by code_simp

lemma base64_lines: "Buffer_from_base64 ''QQpCCg=='' = [0x41, 0x0A, 0x42, 0x0A]"
  by (simp add: Buffer_from_base64_def unbase64_def List.map_filter_simps)

lemma a_sql_output: "outputPath ''a.sql'' = ''a-utf8.sql''"
  by (simp add: outputPath_def path_parse_def Let_def)

subsection \<open>The score of a candidate\<close>

text \<open>
  Claim C1. For every candidate encoding whose decode succeeds, the score computed for the
  decoded string (the one the loop logs and compares) is: 100 when the string has no
  U+FFFD, else minus ten times their number; plus 50 when the string is not empty; plus 5
  for each of the ten keywords that occurs in the upper-cased string, each keyword counted
  once; plus 30 when the share of code units outside 0x00 to 0x1F and 0x7F to 0x9F exceeds
  0.8; plus the number of code units among semicolon, parentheses, comma, apostrophe and
  double quote, at most 20.
\<close>

theorem score_formula:
  assumes "iconv_decode rt buf encoding = Inr decoded"
  shows "events (try_encoding rt buf encoding st) =
     events st @ [IconvDecode encoding, LogDebug encoding
      ((if count_list decoded 0xFFFD = 0 then 100 else - 10 * int (count_list decoded 0xFFFD))
       + (if length decoded > 0 then 50 else 0)
       + 5 * int (card {k \<in> set (map js [''SELECT'', ''INSERT'', ''UPDATE'', ''DELETE'', ''CREATE'',
                                         ''DROP'', ''ALTER'', ''TABLE'', ''FROM'', ''WHERE'']).
                        sublist k (toUpperCase rt decoded)})
       + (if decoded \<noteq> [] \<and>
             8 / 10 < (of_nat (length (filter (\<lambda>c. \<not> (c \<le> 0x1F \<or> 0x7F \<le> c \<and> c \<le> 0x9F)) decoded))
                        / of_nat (length decoded) :: rat)
          then 30 else 0)
       + int (min (length (filter (\<lambda>c. c \<in> {0x3B, 0x28, 0x29, 0x2C, 0x27, 0x22}) decoded)) 20))]"
proof -
  have "events (try_encoding rt buf encoding st) =
      events st @ [IconvDecode encoding, LogDebug encoding (score rt decoded)]"
    using assms by (simp add: try_encoding_def Let_def)
  then show ?thesis
    unfolding score_eq [of rt decoded] sqlKeywords_def .
qed

text \<open>
  The text \<open>SELECT * FROM t;\<close> decoded as UTF-8: no U+FFFD, not empty, the keywords
  SELECT and FROM, all printable, one semicolon: 100 + 50 + 10 + 30 + 1.
\<close>

theorem score_formula_witness:
  "iconv_decode node_runtime (bytes_of ''SELECT * FROM t;'') ''utf8'' = Inr (js ''SELECT * FROM t;'')
   \<and> events (try_encoding node_runtime (bytes_of ''SELECT * FROM t;'') ''utf8''
        \<lparr>bestEncoding = ''utf8'', bestScore = 0, events = []\<rparr>)
     = [IconvDecode ''utf8'', LogDebug ''utf8'' 191]"
proof -
  have h: "iconv_decode node_runtime (bytes_of ''SELECT * FROM t;'') ''utf8'' = Inr (js ''SELECT * FROM t;'')"
    by (rule sql_decoded)
  have up: "toUpperCase node_runtime (js ''SELECT * FROM t;'') = js ''SELECT * FROM T;''"
    by code_simp
  have kw: "{k \<in> set (map js [''SELECT'', ''INSERT'', ''UPDATE'', ''DELETE'', ''CREATE'',
                                         ''DROP'', ''ALTER'', ''TABLE'', ''FROM'', ''WHERE'']).
                        sublist k (js ''SELECT * FROM T;'')} = {js ''SELECT'', js ''FROM''}"
    by code_simp
  have ne: "js ''SELECT'' \<noteq> js ''FROM''"
    by code_simp
  show ?thesis
    using score_formula [OF h, of "\<lparr>bestEncoding = ''utf8'', bestScore = 0, events = []\<rparr>"] h
    unfolding up kw by (simp add: ne) (simp add: js_def)
qed

subsection \<open>Ties\<close>

lemma detect_loop_unchanged:
  assumes "\<forall>e \<in> set encs. \<forall>v. candidate_score rt buf e = Some v \<longrightarrow> v \<le> bestScore st"
  shows "bestEncoding (detect_loop rt buf encs st) = bestEncoding st \<and>
         bestScore (detect_loop rt buf encs st) = bestScore st"
  using assms
proof (induction encs arbitrary: st)
  case Nil
  then show ?case by simp
next
  case (Cons a encs)
  have same: "bestEncoding (try_encoding rt buf a st) = bestEncoding st"
    "bestScore (try_encoding rt buf a st) = bestScore st"
    using Cons.prems
    by (cases "candidate_score rt buf a"; simp add: try_encoding_None try_encoding_Some)+
  with Cons.prems have "\<forall>e \<in> set encs. \<forall>v. candidate_score rt buf e = Some v \<longrightarrow>
      v \<le> bestScore (try_encoding rt buf a st)"
    by simp
  from Cons.IH [OF this] same show ?case by simp
qed

lemma detect_loop_first_best:
  assumes "\<forall>e' \<in> set pre. \<forall>v. candidate_score rt buf e' = Some v \<longrightarrow> v < s"
    and "candidate_score rt buf e = Some s" and "bestScore st < s"
    and "\<forall>e' \<in> set post. \<forall>v. candidate_score rt buf e' = Some v \<longrightarrow> v \<le> s"
  shows "bestEncoding (detect_loop rt buf (pre @ e # post) st) = e \<and>
         bestScore (detect_loop rt buf (pre @ e # post) st) = s"
  using assms(1,3)
proof (induction pre arbitrary: st)
  case Nil
  have st': "bestEncoding (try_encoding rt buf e st) = e" "bestScore (try_encoding rt buf e st) = s"
    using assms(2) Nil.prems(2) by (simp_all add: try_encoding_Some)
  with assms(4) have "\<forall>e' \<in> set post. \<forall>v. candidate_score rt buf e' = Some v \<longrightarrow>
      v \<le> bestScore (try_encoding rt buf e st)"
    by simp
  from detect_loop_unchanged [OF this] st' show ?case by simp
next
  case (Cons a pre)
  have "bestScore (try_encoding rt buf a st) < s"
    using Cons.prems
    by (cases "candidate_score rt buf a") (auto simp: try_encoding_None try_encoding_Some)
  moreover have "\<forall>e' \<in> set pre. \<forall>v. candidate_score rt buf e' = Some v \<longrightarrow> v < s"
    using Cons.prems(1) by simp
  ultimately show ?case
    using Cons.IH [of "try_encoding rt buf a st"] by simp
qed

text \<open>
  Claim C2, amended. Without a hint the winner is selected with a strictly greater
  comparison in the order of the catalog: the encoding returned is the first candidate
  that reaches the highest score, when that score is above 0. So of several candidates
  that share the highest score the one earliest in the catalog is returned, as utf8 is
  for an ASCII-only buffer that utf8 and ascii decode to the same text with the highest
  score.
\<close>

theorem first_best_candidate_wins:
  assumes "encodingsToTry = pre @ e # post"
    and "candidate_score rt buf e = Some s" and "0 < s"
    and "\<forall>e' \<in> set pre. \<forall>v. candidate_score rt buf e' = Some v \<longrightarrow> v < s"
    and "\<forall>e' \<in> set post. \<forall>v. candidate_score rt buf e' = Some v \<longrightarrow> v \<le> s"
  shows "bestEncoding (detect rt buf evs) = e \<and> bestScore (detect rt buf evs) = s"
  unfolding detect_best assms(1)
  by (rule detect_loop_first_best [OF assms(4) assms(2) _ assms(5)]) (simp add: assms(3))

text \<open>
  The two lines \<open>A\<close> and \<open>B\<close>: utf-16le and utf-16be share the highest score 180 and
  utf-16le, the earlier one, is returned. The text \<open>SELECT * FROM t;\<close>: utf8 and
  ascii (and all single-byte pages) share the highest score 191 and utf8 is returned.
\<close>

theorem first_best_candidate_wins_witness:
  "encodingsToTry = take 20 encodingsToTry @ ''utf-16le'' # [''utf-16be'', ''utf-32le'', ''utf-32be'', ''ascii''] \<and>
   candidate_score node_runtime [0x41, 0x0A, 0x42, 0x0A] ''utf-16le'' = Some 180 \<and>
   candidate_score node_runtime [0x41, 0x0A, 0x42, 0x0A] ''utf-16be'' = Some 180 \<and>
   bestEncoding (detect node_runtime [0x41, 0x0A, 0x42, 0x0A] []) = ''utf-16le'' \<and>
   bestScore (detect node_runtime [0x41, 0x0A, 0x42, 0x0A] []) = 180 \<and>
   encodingsToTry = [] @ ''utf8'' # tl encodingsToTry \<and>
   candidate_score node_runtime (bytes_of ''SELECT * FROM t;'') ''utf8'' = Some 191 \<and>
   candidate_score node_runtime (bytes_of ''SELECT * FROM t;'') ''ascii'' = Some 191 \<and>
   bestEncoding (detect node_runtime (bytes_of ''SELECT * FROM t;'') []) = ''utf8'' \<and>
   bestScore (detect node_runtime (bytes_of ''SELECT * FROM t;'') []) = 191"
proof -
  have split1: "encodingsToTry =
      take 20 encodingsToTry @ ''utf-16le'' # [''utf-16be'', ''utf-32le'', ''utf-32be'', ''ascii'']"
    by (simp add: encodingsToTry_def)
  have pre1: "\<forall>e' \<in> set (take 20 encodingsToTry). \<forall>v.
      candidate_score node_runtime [0x41, 0x0A, 0x42, 0x0A] e' = Some v \<longrightarrow> v < 180"
    by (simp add: encodingsToTry_def lines_candidates single_byte_names_def)
  have post1: "\<forall>e' \<in> set [''utf-16be'', ''utf-32le'', ''utf-32be'', ''ascii'']. \<forall>v.
      candidate_score node_runtime [0x41, 0x0A, 0x42, 0x0A] e' = Some v \<longrightarrow> v \<le> 180"
    by (simp add: lines_candidates single_byte_names_def)
  have r1: "bestEncoding (detect node_runtime [0x41, 0x0A, 0x42, 0x0A] []) = ''utf-16le'' \<and>
      bestScore (detect node_runtime [0x41, 0x0A, 0x42, 0x0A] []) = 180"
    by (rule first_best_candidate_wins [OF split1 lines_candidates(4) _ pre1 post1]) simp
  have split2: "encodingsToTry = [] @ ''utf8'' # tl encodingsToTry"
    by (simp add: encodingsToTry_def)
  have pre2: "\<forall>e' \<in> set []. \<forall>v.
      candidate_score node_runtime (bytes_of ''SELECT * FROM t;'') e' = Some v \<longrightarrow> v < 191"
    by simp
  have post2: "\<forall>e' \<in> set (tl encodingsToTry). \<forall>v.
      candidate_score node_runtime (bytes_of ''SELECT * FROM t;'') e' = Some v \<longrightarrow> v \<le> 191"
    by (simp add: encodingsToTry_def sql_candidates single_byte_names_def)
  have r2: "bestEncoding (detect node_runtime (bytes_of ''SELECT * FROM t;'') []) = ''utf8'' \<and>
      bestScore (detect node_runtime (bytes_of ''SELECT * FROM t;'') []) = 191"
    by (rule first_best_candidate_wins [OF split2 sql_candidates(1) _ pre2 post2]) simp
  have asc: "candidate_score node_runtime (bytes_of ''SELECT * FROM t;'') ''ascii'' = Some 191"
    by (simp add: sql_candidates single_byte_names_def)
  show ?thesis
    using split1 split2 r1 r2 asc lines_candidates(4,5) sql_candidates(1) by blast
qed

text \<open>
  Claim C2 as stated fails where the tied candidates do not have the highest score: for
  the two lines \<open>A\<close> and \<open>B\<close> the candidates utf8 and ascii both score 150, and the
  encoding returned is neither the earlier of the two nor the later, but utf-16le.
\<close>

theorem tied_candidates_passed_over_counterexample:
  "candidate_score node_runtime [0x41, 0x0A, 0x42, 0x0A] ''utf8'' = Some 150 \<and>
   candidate_score node_runtime [0x41, 0x0A, 0x42, 0x0A] ''ascii'' = Some 150 \<and>
   bestEncoding (detect node_runtime [0x41, 0x0A, 0x42, 0x0A] []) = ''utf-16le'' \<and>
   bestEncoding (detect node_runtime [0x41, 0x0A, 0x42, 0x0A] []) \<noteq> ''utf8''"
  by (simp add: lines_candidates lines_detect single_byte_names_def)

subsection \<open>A request with a source encoding\<close>

text \<open>
  Claim C3, amended. For every request that passes validation and carries a source
  encoding that is not the empty string, the handler does not run the scoring loop and
  calls the decoder exactly once, with that encoding: the only events are the start line,
  the detection line, the one call of the decoder and the final line. When that call
  throws, the call of the handler fails with an internal HttpsError that carries the
  message, and nothing else is tried.
\<close>

theorem hint_skips_detection:
  assumes "filePath req = Some file" and "file \<noteq> []" and "suffix ''.sql'' file"
    and "fileContent req = Some content" and "content \<noteq> []"
    and "sourceEncoding req = Some h" and "h \<noteq> []"
  shows "convertToUtf8 rt (Some req) =
     (case iconv_decode rt (Buffer_from_base64 content) h of
        Inl (Error msg) \<Rightarrow>
          (Inl (HttpsError ''internal'' (''Failed to convert file to UTF-8: '' @ msg)),
           [LogInfo ''Starting UTF-8 conversion'', LogInfo ''Encoding detection'', IconvDecode h,
            LogError ''Failed to convert file to UTF-8''])
      | Inr decodedText \<Rightarrow>
          (Inr \<lparr>success = True, originalPath = file, convertedPath = outputPath file,
                convertedContent = toString_base64 (Buffer_from_utf8 decodedText),
                usedEncoding = h,
                message = ''Successfully converted '' @ file @ '' from '' @ h @ '' to UTF-8''\<rparr>,
           [LogInfo ''Starting UTF-8 conversion'', LogInfo ''Encoding detection'', IconvDecode h,
            LogInfo ''Conversion completed successfully'']))"
proof (cases "iconv_decode rt (Buffer_from_base64 content) h")
  case (Inl err)
  then show ?thesis
    using assms
    by (cases err) (simp add: convertToUtf8_def handler_body_def resolve_hint Let_def)
next
  case (Inr decodedText)
  then show ?thesis
    using assms by (simp add: convertToUtf8_def handler_body_def resolve_hint Let_def)
qed

theorem hint_skips_detection_witness:
  "convertToUtf8 node_runtime
     (Some \<lparr>filePath = Some ''a.sql'', fileContent = Some ''QQpCCg=='',
      sourceEncoding = Some ''no-such-encoding''\<rparr>) =
   (Inl (HttpsError ''internal''
      ''Failed to convert file to UTF-8: Encoding not recognized: no-such-encoding''),
    [LogInfo ''Starting UTF-8 conversion'', LogInfo ''Encoding detection'',
     IconvDecode ''no-such-encoding'', LogError ''Failed to convert file to UTF-8''])
   \<and> convertToUtf8 node_runtime
     (Some \<lparr>filePath = Some ''a.sql'', fileContent = Some ''QQpCCg=='',
      sourceEncoding = Some ''latin1''\<rparr>) =
   (Inr \<lparr>success = True, originalPath = ''a.sql'', convertedPath = ''a-utf8.sql'',
         convertedContent = ''QQpCCg=='', usedEncoding = ''latin1'',
         message = ''Successfully converted a.sql from latin1 to UTF-8''\<rparr>,
    [LogInfo ''Starting UTF-8 conversion'', LogInfo ''Encoding detection'',
     IconvDecode ''latin1'', LogInfo ''Conversion completed successfully''])"
proof -
  have bad: "iconv_decode node_runtime [0x41, 0x0A, 0x42, 0x0A] ''no-such-encoding'' =
      Inl (Error ''Encoding not recognized: no-such-encoding'')"
    by (simp add: node_runtime_def iconv_lite_def single_byte_names_def)
  have good: "iconv_decode node_runtime [0x41, 0x0A, 0x42, 0x0A] ''latin1'' =
      Inr [0x41, 0x0A, 0x42, 0x0A]"
    by (simp add: lines_decoded single_byte_names_def)
  have out: "toString_base64 (Buffer_from_utf8 [0x41, 0x0A, 0x42, 0x0A]) = ''QQpCCg==''"
    by (simp add: toString_base64_def Buffer_from_utf8_def utf8_bytes_def is_high_surrogate_def
        is_low_surrogate_def base64_char_def)
  have 1: "convertToUtf8 node_runtime
     (Some \<lparr>filePath = Some ''a.sql'', fileContent = Some ''QQpCCg=='',
      sourceEncoding = Some ''no-such-encoding''\<rparr>) =
   (Inl (HttpsError ''internal''
      ''Failed to convert file to UTF-8: Encoding not recognized: no-such-encoding''),
    [LogInfo ''Starting UTF-8 conversion'', LogInfo ''Encoding detection'',
     IconvDecode ''no-such-encoding'', LogError ''Failed to convert file to UTF-8''])"
    using hint_skips_detection [of "\<lparr>filePath = Some ''a.sql'', fileContent = Some ''QQpCCg=='',
      sourceEncoding = Some ''no-such-encoding''\<rparr>" "''a.sql''" "''QQpCCg==''"
      "''no-such-encoding''" node_runtime]
    by (simp add: base64_lines bad a_sql_suffix)
  have 2: "convertToUtf8 node_runtime
     (Some \<lparr>filePath = Some ''a.sql'', fileContent = Some ''QQpCCg=='',
      sourceEncoding = Some ''latin1''\<rparr>) =
   (Inr \<lparr>success = True, originalPath = ''a.sql'', convertedPath = ''a-utf8.sql'',
         convertedContent = ''QQpCCg=='', usedEncoding = ''latin1'',
         message = ''Successfully converted a.sql from latin1 to UTF-8''\<rparr>,
    [LogInfo ''Starting UTF-8 conversion'', LogInfo ''Encoding detection'',
     IconvDecode ''latin1'', LogInfo ''Conversion completed successfully''])"
    using hint_skips_detection [of "\<lparr>filePath = Some ''a.sql'', fileContent = Some ''QQpCCg=='',
      sourceEncoding = Some ''latin1''\<rparr>" "''a.sql''" "''QQpCCg==''" "''latin1''" node_runtime]
    by (simp add: base64_lines good out a_sql_output a_sql_suffix)
  from 1 2 show ?thesis by (rule conjI)
qed

text \<open>
  Claim C3 as stated fails for the source encoding that is the empty string, which the
  guard of line 90 treats like an absent one: the request below carries the four bytes of
  the lines A and B, each ended by a line feed, and the empty string as source encoding;
  the handler runs the loop over all 25 names, calls the decoder 26 times and answers
  with utf-16le.
\<close>

theorem empty_hint_runs_detection_counterexample:
  "sourceEncoding \<lparr>filePath = Some ''a.sql'', fileContent = Some ''QQpCCg=='',
      sourceEncoding = Some []\<rparr> = Some [] \<and>
   fst (convertToUtf8 node_runtime
     (Some \<lparr>filePath = Some ''a.sql'', fileContent = Some ''QQpCCg=='', sourceEncoding = Some []\<rparr>)) =
     Inr \<lparr>success = True, originalPath = ''a.sql'', convertedPath = ''a-utf8.sql'',
          convertedContent = ''4KmB4KmC'', usedEncoding = ''utf-16le'',
          message = ''Successfully converted a.sql from utf-16le to UTF-8''\<rparr> \<and>
   length (filter is_IconvDecode (snd (convertToUtf8 node_runtime
     (Some \<lparr>filePath = Some ''a.sql'', fileContent = Some ''QQpCCg=='', sourceEncoding = Some []\<rparr>)))) = 26 \<and>
   LogDebug ''utf8'' 150 \<in> set (snd (convertToUtf8 node_runtime
     (Some \<lparr>filePath = Some ''a.sql'', fileContent = Some ''QQpCCg=='', sourceEncoding = Some []\<rparr>))) \<and>
   LogDebug ''utf-16le'' 180 \<in> set (snd (convertToUtf8 node_runtime
     (Some \<lparr>filePath = Some ''a.sql'', fileContent = Some ''QQpCCg=='', sourceEncoding = Some []\<rparr>)))"
proof -
  have out: "toString_base64 (Buffer_from_utf8 [0x0A41, 0x0A42]) = ''4KmB4KmC''"
    by (simp add: toString_base64_def Buffer_from_utf8_def utf8_bytes_def is_high_surrogate_def
        is_low_surrogate_def base64_char_def)
  have dbg: "LogDebug ''utf8'' 150 \<in> set (filter is_LogDebug
        (events (detect node_runtime [0x41, 0x0A, 0x42, 0x0A] [LogInfo ''Starting UTF-8 conversion''])))"
    "LogDebug ''utf-16le'' 180 \<in> set (filter is_LogDebug
        (events (detect node_runtime [0x41, 0x0A, 0x42, 0x0A] [LogInfo ''Starting UTF-8 conversion''])))"
    unfolding detect_debug
    by (simp_all add: encodingsToTry_def lines_candidates single_byte_names_def)
  have run: "convertToUtf8 node_runtime
     (Some \<lparr>filePath = Some ''a.sql'', fileContent = Some ''QQpCCg=='', sourceEncoding = Some []\<rparr>) =
    (Inr \<lparr>success = True, originalPath = ''a.sql'', convertedPath = ''a-utf8.sql'',
          convertedContent = ''4KmB4KmC'', usedEncoding = ''utf-16le'',
          message = ''Successfully converted a.sql from utf-16le to UTF-8''\<rparr>,
     events (detect node_runtime [0x41, 0x0A, 0x42, 0x0A] [LogInfo ''Starting UTF-8 conversion'']) @
       [LogInfo ''Encoding detection'', IconvDecode ''utf-16le'',
        LogInfo ''Conversion completed successfully''])"
    using convertToUtf8_auto [of "\<lparr>filePath = Some ''a.sql'', fileContent = Some ''QQpCCg=='',
      sourceEncoding = Some []\<rparr>" "''a.sql''" "''QQpCCg==''" node_runtime "[0x0A41, 0x0A42]"]
    by (simp add: base64_lines lines_detect lines_decoded out a_sql_output a_sql_suffix)
  have calls: "length (filter is_IconvDecode (snd (convertToUtf8 node_runtime
     (Some \<lparr>filePath = Some ''a.sql'', fileContent = Some ''QQpCCg=='', sourceEncoding = Some []\<rparr>)))) = 26"
    unfolding run by (simp add: detect_decodes) (simp add: encodingsToTry_def)
  show ?thesis
    using dbg calls unfolding run by simp
qed

subsection \<open>A request without content\<close>

lemma null_data_internal:
  "convertToUtf8 rt None =
     (Inl (HttpsError ''internal''
        ''Failed to convert file to UTF-8: Cannot destructure property 'filePath' of 'request.data' as it is null.''),
      [LogError ''Failed to convert file to UTF-8''])"
  by (simp add: convertToUtf8_def handler_body_def)

text \<open>
  Claim C4, amended. For every request whose file content is absent or empty the handler
  fails with a fatal error and never calls the decoder, its only event being the error
  line of the outer catch block: when the data of the request are an object whose file
  content (the base64 text) is absent or the empty string, the error is an HttpsError of
  kind invalid-argument; when the data are null, the error is an HttpsError of kind
  internal.
\<close>

theorem missing_content_rejected:
  assumes "case data of None \<Rightarrow> True
           | Some req \<Rightarrow> fileContent req = None \<or> fileContent req = Some []"
  shows "convertToUtf8 rt data =
     (case data of
        None \<Rightarrow>
          (Inl (HttpsError ''internal''
             ''Failed to convert file to UTF-8: Cannot destructure property 'filePath' of 'request.data' as it is null.''),
           [LogError ''Failed to convert file to UTF-8''])
      | Some req \<Rightarrow>
          (Inl (HttpsError ''invalid-argument''
             (if filePath req = None \<or> filePath req = Some [] then ''File path is required''
              else ''File content is required'')),
           [LogError ''Failed to convert file to UTF-8'']))"
proof (cases data)
  case None
  then show ?thesis by (simp add: null_data_internal)
next
  case (Some req)
  with assms show ?thesis
    by (auto simp: convertToUtf8_def handler_body_def split: option.splits)
qed

theorem missing_content_rejected_witness:
  "convertToUtf8 node_runtime
     (Some \<lparr>filePath = Some ''a.sql'', fileContent = Some [], sourceEncoding = None\<rparr>) =
   (Inl (HttpsError ''invalid-argument'' ''File content is required''),
    [LogError ''Failed to convert file to UTF-8'']) \<and>
   convertToUtf8 node_runtime
     (Some \<lparr>filePath = Some ''a.sql'', fileContent = None, sourceEncoding = None\<rparr>) =
   (Inl (HttpsError ''invalid-argument'' ''File content is required''),
    [LogError ''Failed to convert file to UTF-8'']) \<and>
   convertToUtf8 node_runtime None =
   (Inl (HttpsError ''internal''
      ''Failed to convert file to UTF-8: Cannot destructure property 'filePath' of 'request.data' as it is null.''),
    [LogError ''Failed to convert file to UTF-8''])"
  using missing_content_rejected [of
      "Some \<lparr>filePath = Some ''a.sql'', fileContent = Some [], sourceEncoding = None\<rparr>" node_runtime]
    missing_content_rejected [of
      "Some \<lparr>filePath = Some ''a.sql'', fileContent = None, sourceEncoding = None\<rparr>" node_runtime]
    missing_content_rejected [of None node_runtime]
  by simp

text \<open>
  Claim C4 as stated fails in two ways. A request whose content is a base64 text that is
  not empty but decodes to no byte, such as the single padding character, passes the
  guard of line 62, which looks at the text and not at the buffer: the handler runs the
  detection on the empty buffer, calls the decoder 26 times and answers with success. And
  a request whose data are null, so that the content is absent, is answered with an
  error of kind internal, not invalid-argument.
\<close>

theorem empty_buffer_accepted_counterexample:
  "Buffer_from_base64 ''='' = [] \<and>
   fst (convertToUtf8 node_runtime
     (Some \<lparr>filePath = Some ''a.sql'', fileContent = Some ''='', sourceEncoding = None\<rparr>)) =
     Inr \<lparr>success = True, originalPath = ''a.sql'', convertedPath = ''a-utf8.sql'',
          convertedContent = [], usedEncoding = ''utf8'',
          message = ''Successfully converted a.sql from utf8 to UTF-8''\<rparr> \<and>
   length (filter is_IconvDecode (snd (convertToUtf8 node_runtime
     (Some \<lparr>filePath = Some ''a.sql'', fileContent = Some ''='', sourceEncoding = None\<rparr>)))) = 26 \<and>
   fst (convertToUtf8 node_runtime None) =
     Inl (HttpsError ''internal''
       ''Failed to convert file to UTF-8: Cannot destructure property 'filePath' of 'request.data' as it is null.'')"
proof -
  have buf: "Buffer_from_base64 ''='' = []"
    by (simp add: Buffer_from_base64_def List.map_filter_simps)
  have out: "toString_base64 (Buffer_from_utf8 []) = []"
    by (simp add: toString_base64_def Buffer_from_utf8_def)
  have "convertToUtf8 node_runtime
     (Some \<lparr>filePath = Some ''a.sql'', fileContent = Some ''='', sourceEncoding = None\<rparr>) =
    (Inr \<lparr>success = True, originalPath = ''a.sql'', convertedPath = ''a-utf8.sql'',
          convertedContent = [], usedEncoding = ''utf8'',
          message = ''Successfully converted a.sql from utf8 to UTF-8''\<rparr>,
     events (detect node_runtime [] [LogInfo ''Starting UTF-8 conversion'']) @
       [LogInfo ''Encoding detection'', IconvDecode ''utf8'',
        LogInfo ''Conversion completed successfully''])"
    using convertToUtf8_auto [of "\<lparr>filePath = Some ''a.sql'', fileContent = Some ''='',
      sourceEncoding = None\<rparr>" "''a.sql''" "''=''" node_runtime "[]"]
    by (simp add: buf empty_detect empty_decoded encodingsToTry_def out a_sql_output a_sql_suffix)
  then show ?thesis
    by (simp add: buf detect_decodes null_data_internal) (simp add: encodingsToTry_def)
qed

subsection \<open>Candidates whose decoding throws\<close>

text \<open>
  Claim C5. Without a hint, with a codec whose UTF-8 decoder does not throw on the buffer
  (that of iconv-lite never throws), a candidate whose decoding throws is skipped: the
  body of the loop leaves the best encoding and score as they were and logs no score, the
  candidate is not the encoding the detection returns, the encoding returned is one whose
  decoding succeeds, and the resolver returns that encoding with its text and raises
  nothing.
\<close>

theorem failed_candidates_skipped:
  assumes "iconv_decode rt buf ''utf8'' = Inr text0"
    and "iconv_decode rt buf e = Inl err"
  shows "try_encoding rt buf e st = st\<lparr>events := events st @ [IconvDecode e]\<rparr> \<and>
         bestEncoding (detect rt buf evs) \<noteq> e \<and>
         (\<exists>text. iconv_decode rt buf (bestEncoding (detect rt buf evs)) = Inr text \<and>
            resolve rt buf None evs =
              (Inr (bestEncoding (detect rt buf evs), text),
               events (detect rt buf evs) @
                 [LogInfo ''Encoding detection'', IconvDecode (bestEncoding (detect rt buf evs))]))"
proof (intro conjI)
  show "try_encoding rt buf e st = st\<lparr>events := events st @ [IconvDecode e]\<rparr>"
    using assms(2) by (simp add: try_encoding_def)
  obtain decodedText
    where dec: "iconv_decode rt buf (bestEncoding (detect rt buf evs)) = Inr decodedText"
    using detect_winner_decodes [OF assms(1)] by blast
  with assms(2) show "bestEncoding (detect rt buf evs) \<noteq> e"
    by auto
  show "\<exists>text. iconv_decode rt buf (bestEncoding (detect rt buf evs)) = Inr text \<and>
            resolve rt buf None evs =
              (Inr (bestEncoding (detect rt buf evs), text),
               events (detect rt buf evs) @
                 [LogInfo ''Encoding detection'', IconvDecode (bestEncoding (detect rt buf evs))])"
    using dec by (simp add: resolve_auto)
qed

lemma without_utf32_candidates:
  "candidate_score runtime_without_utf32 (bytes_of ''SELECT * FROM t;'') ''utf8'' = Some 191"
  "candidate_score runtime_without_utf32 (bytes_of ''SELECT * FROM t;'') ''utf-8'' = Some 191"
  "e \<in> set single_byte_names \<Longrightarrow>
     candidate_score runtime_without_utf32 (bytes_of ''SELECT * FROM t;'') e = Some 191"
  "candidate_score runtime_without_utf32 (bytes_of ''SELECT * FROM t;'') ''utf-16le'' = Some 180"
  "candidate_score runtime_without_utf32 (bytes_of ''SELECT * FROM t;'') ''utf-16be'' = Some 180"
  "candidate_score runtime_without_utf32 (bytes_of ''SELECT * FROM t;'') ''utf-32le'' = None"
  "candidate_score runtime_without_utf32 (bytes_of ''SELECT * FROM t;'') ''utf-32be'' = None"
proof -
  have sc: "score runtime_without_utf32 = score node_runtime"
    by (simp add: fun_eq_iff score_def sqlKeywordCount_def runtime_without_utf32_def)
  have dec: "\<And>e. e \<noteq> ''utf-32le'' \<Longrightarrow> e \<noteq> ''utf-32be'' \<Longrightarrow>
      iconv_decode runtime_without_utf32 (bytes_of ''SELECT * FROM t;'') e =
      iconv_decode node_runtime (bytes_of ''SELECT * FROM t;'') e"
    by (simp add: runtime_without_utf32_def node_runtime_def)
  show "candidate_score runtime_without_utf32 (bytes_of ''SELECT * FROM t;'') ''utf8'' = Some 191"
    "candidate_score runtime_without_utf32 (bytes_of ''SELECT * FROM t;'') ''utf-8'' = Some 191"
    "candidate_score runtime_without_utf32 (bytes_of ''SELECT * FROM t;'') ''utf-16le'' = Some 180"
    "candidate_score runtime_without_utf32 (bytes_of ''SELECT * FROM t;'') ''utf-16be'' = Some 180"
    by (simp_all add: candidate_score_def sc dec sql_decoded sql_score)
  show "candidate_score runtime_without_utf32 (bytes_of ''SELECT * FROM t;'') ''utf-32le'' = None"
    "candidate_score runtime_without_utf32 (bytes_of ''SELECT * FROM t;'') ''utf-32be'' = None"
    by (simp_all add: candidate_score_def runtime_without_utf32_def)
  show "candidate_score runtime_without_utf32 (bytes_of ''SELECT * FROM t;'') e = Some 191"
    if "e \<in> set single_byte_names"
    using that single_byte_not_unicode [OF that]
    by (simp add: candidate_score_def sc dec sql_decoded sql_score)
qed

lemma without_utf32_detect:
  "bestEncoding (detect runtime_without_utf32 (bytes_of ''SELECT * FROM t;'') []) = ''utf8''"
  by (simp add: detect_def encodingsToTry_def try_encoding_Some try_encoding_None
      without_utf32_candidates single_byte_names_def)

theorem failed_candidates_skipped_witness:
  "iconv_decode runtime_without_utf32 (bytes_of ''SELECT * FROM t;'') ''utf8'' =
     Inr (js ''SELECT * FROM t;'') \<and>
   iconv_decode runtime_without_utf32 (bytes_of ''SELECT * FROM t;'') ''utf-32le'' =
     Inl (Error ''Encoding not recognized: utf-32le'') \<and>
   try_encoding runtime_without_utf32 (bytes_of ''SELECT * FROM t;'') ''utf-32le''
       \<lparr>bestEncoding = ''utf8'', bestScore = 191, events = []\<rparr> =
     \<lparr>bestEncoding = ''utf8'', bestScore = 191, events = [IconvDecode ''utf-32le'']\<rparr> \<and>
   bestEncoding (detect runtime_without_utf32 (bytes_of ''SELECT * FROM t;'') []) = ''utf8'' \<and>
   fst (resolve runtime_without_utf32 (bytes_of ''SELECT * FROM t;'') None []) =
     Inr (''utf8'', js ''SELECT * FROM t;'')"
proof -
  have h1: "iconv_decode runtime_without_utf32 (bytes_of ''SELECT * FROM t;'') ''utf8'' =
      Inr (js ''SELECT * FROM t;'')"
    using sql_decoded(1) by (simp add: runtime_without_utf32_def node_runtime_def)
  have h2: "iconv_decode runtime_without_utf32 (bytes_of ''SELECT * FROM t;'') ''utf-32le'' =
      Inl (Error ''Encoding not recognized: utf-32le'')"
    by (simp add: runtime_without_utf32_def)
  from failed_candidates_skipped [OF h1 h2,
      of "\<lparr>bestEncoding = ''utf8'', bestScore = 191, events = []\<rparr>" "[]"]
  show ?thesis
    using h1 h2 without_utf32_detect by auto
qed

subsection \<open>Buffers of valid UTF-8\<close>

text \<open>
  Claim C6, amended. For every buffer that the utf8 candidate decodes to a text that is
  not empty and has no U+FFFD, that candidate scores at least 150, resolving without a
  hint returns a best score of at least 150, and the encoding returned is utf8 exactly
  when no later candidate of the catalog scores strictly more than the utf8 candidate.
\<close>

theorem valid_utf8_scores_150:
  assumes "iconv_decode rt buf ''utf8'' = Inr decoded" and "decoded \<noteq> []"
    and "0xFFFD \<notin> set decoded"
  shows "150 \<le> score rt decoded \<and> 150 \<le> bestScore (detect rt buf evs) \<and>
     (bestEncoding (detect rt buf evs) = ''utf8'' \<longleftrightarrow>
        (\<forall>e \<in> set (tl encodingsToTry). \<forall>v. candidate_score rt buf e = Some v \<longrightarrow> v \<le> score rt decoded))"
proof -
  have c0: "count_list decoded 0xFFFD = 0"
    using assms(3) by (simp add: count_list_0_iff)
  have sc: "150 \<le> score rt decoded"
    unfolding score_eq using assms(2) c0 by simp
  have cand: "candidate_score rt buf ''utf8'' = Some (score rt decoded)"
    using assms(1) by (simp add: candidate_score_def)
  have hd: "encodingsToTry = ''utf8'' # tl encodingsToTry"
    by (simp add: encodingsToTry_def)
  have notin: "''utf8'' \<notin> set (tl encodingsToTry)"
    by (simp add: encodingsToTry_def)
  from detect_cases [of rt buf evs] show ?thesis
  proof (elim disjE exE conjE)
    assume "\<forall>e \<in> set encodingsToTry. \<forall>v. candidate_score rt buf e = Some v \<longrightarrow> v \<le> 0"
    moreover have "''utf8'' \<in> set encodingsToTry"
      by (simp add: encodingsToTry_def)
    ultimately have "score rt decoded \<le> 0"
      using cand by blast
    with sc show ?thesis by simp
  next
    fix pre e post v
    assume h: "encodingsToTry = pre @ e # post" "candidate_score rt buf e = Some v"
      "bestEncoding (detect rt buf evs) = e" "bestScore (detect rt buf evs) = v"
      "\<forall>e' \<in> set pre. \<forall>v'. candidate_score rt buf e' = Some v' \<longrightarrow> v' < v"
      "\<forall>e' \<in> set post. \<forall>v'. candidate_score rt buf e' = Some v' \<longrightarrow> v' \<le> v"
    show ?thesis
    proof (cases pre)
      case Nil
      with h(1) hd have e: "e = ''utf8''" and post: "post = tl encodingsToTry"
        by (metis append_Nil list.inject)+
      with h(2) cand have v: "v = score rt decoded" by simp
      show ?thesis
        using sc h(3,4,6) e v post by simp
    next
      case (Cons a pre')
      with h(1) hd have a: "a = ''utf8''" and tl: "tl encodingsToTry = pre' @ e # post"
        by (metis append_Cons list.inject)+
      have lt: "score rt decoded < v"
        using h(5) cand a Cons by simp
      have mem: "e \<in> set (tl encodingsToTry)"
        by (simp add: tl)
      with notin have ne: "e \<noteq> ''utf8''" by auto
      have "\<not> (\<forall>e \<in> set (tl encodingsToTry). \<forall>v. candidate_score rt buf e = Some v \<longrightarrow> v \<le> score rt decoded)"
        using mem h(2) lt by force
      then show ?thesis
        using sc lt h(3,4) ne by simp
    qed
  qed
qed

theorem valid_utf8_scores_150_witness:
  "iconv_decode node_runtime (bytes_of ''SELECT * FROM t;'') ''utf8'' = Inr (js ''SELECT * FROM t;'') \<and>
   js ''SELECT * FROM t;'' \<noteq> [] \<and> 0xFFFD \<notin> set (js ''SELECT * FROM t;'') \<and>
   150 \<le> score node_runtime (js ''SELECT * FROM t;'') \<and>
   150 \<le> bestScore (detect node_runtime (bytes_of ''SELECT * FROM t;'') []) \<and>
   bestEncoding (detect node_runtime (bytes_of ''SELECT * FROM t;'') []) = ''utf8''"
proof -
  have h1: "iconv_decode node_runtime (bytes_of ''SELECT * FROM t;'') ''utf8'' = Inr (js ''SELECT * FROM t;'')"
    by (rule sql_decoded)
  have h2: "js ''SELECT * FROM t;'' \<noteq> []"
    by (simp add: js_def)
  have h3: "0xFFFD \<notin> set (js ''SELECT * FROM t;'')"
    by (simp add: js_def)
  from valid_utf8_scores_150 [OF h1 h2 h3, of "[]"] show ?thesis
    using h1 h2 h3 sql_detect by simp
qed

text \<open>
  Claim C6 as stated fails for the four ASCII bytes of the two lines \<open>A\<close> and \<open>B\<close>,
  each ended by a line feed: the buffer is valid UTF-8, has no byte above 0x7F and no
  control character but the line feed. Under utf8 and every single-byte page half of the
  text is line feeds, so the printable bonus is missed and the score is 150; read as
  UTF-16LE the same bytes are two printable code units and score 180, and utf-16le is
  returned.
\<close>

theorem ascii_lines_resolve_to_utf16_counterexample:
  "iconv_decode node_runtime [0x41, 0x0A, 0x42, 0x0A] ''utf8'' = Inr [0x41, 0x0A, 0x42, 0x0A] \<and>
   candidate_score node_runtime [0x41, 0x0A, 0x42, 0x0A] ''utf8'' = Some 150 \<and>
   candidate_score node_runtime [0x41, 0x0A, 0x42, 0x0A] ''utf-16le'' = Some 180 \<and>
   bestEncoding (detect node_runtime [0x41, 0x0A, 0x42, 0x0A] []) = ''utf-16le'' \<and>
   bestScore (detect node_runtime [0x41, 0x0A, 0x42, 0x0A] []) = 180"
  by (simp add: lines_decoded lines_candidates lines_detect)

subsection \<open>Encoding the result as UTF-8 and decoding it again\<close>

lemma decode_1:
  assumes "cp < 0x80"
  shows "utf8_decode (utf8_bytes cp @ bs) = code_units cp @ utf8_decode bs"
  using assms by (simp add: utf8_bytes_def code_units_def)

lemma decode_2:
  assumes "0x80 \<le> cp" "cp < 0x800"
  shows "utf8_decode (utf8_bytes cp @ bs) = code_units cp @ utf8_decode bs"
proof -
  define x where "x = cp div 64"
  define y where "y = cp mod 64"
  have cp: "cp = x * 64 + y"
    unfolding x_def y_def by simp
  have b: "2 \<le> x" "x < 32" "y < 64"
    using assms unfolding x_def y_def by simp_all
  have bytes: "utf8_bytes cp = [0xC0 + x, 0x80 + y]"
    using assms by (simp add: utf8_bytes_def x_def y_def)
  have units: "code_units cp = [x * 64 + y]"
    using assms(2) by (simp add: code_units_def cp)
  show ?thesis
    unfolding bytes units using b
    by (simp add: is_continuation_def)
qed

lemma decode_3:
  assumes "0x800 \<le> cp" "cp < 0x10000" "\<not> (0xD800 \<le> cp \<and> cp < 0xE000)"
  shows "utf8_decode (utf8_bytes cp @ bs) = code_units cp @ utf8_decode bs"
proof -
  define x where "x = cp div 4096"
  define y where "y = (cp div 64) mod 64"
  define z where "z = cp mod 64"
  have "cp div 4096 = cp div 64 div 64"
    by (simp add: div_mult2_eq [symmetric])
  then have "cp div 64 = x * 64 + y"
    unfolding x_def y_def by simp
  then have cp: "cp = (x * 64 + y) * 64 + z"
    unfolding z_def by (metis div_mult_mod_eq)
  have b: "x < 16" "y < 64" "z < 64"
    using assms unfolding x_def y_def z_def by simp_all
  have lo: "x = 0 \<Longrightarrow> 32 \<le> y"
    using assms(1) b unfolding cp by simp
  have hi: "x = 13 \<Longrightarrow> y < 32"
    using assms(3) b unfolding cp by simp
  have bytes: "utf8_bytes cp = [0xE0 + x, 0x80 + y, 0x80 + z]"
    using assms by (simp add: utf8_bytes_def x_def y_def z_def)
  have units: "code_units cp = [x * 4096 + y * 64 + z]"
    using assms(2) by (simp add: code_units_def cp)
  show ?thesis
    unfolding bytes units using b lo hi
    by (auto simp: is_continuation_def)
qed

lemma decode_4:
  assumes "0x10000 \<le> cp" "cp < 0x110000"
  shows "utf8_decode (utf8_bytes cp @ bs) = code_units cp @ utf8_decode bs"
proof -
  define w where "w = cp div 262144"
  define x where "x = (cp div 4096) mod 64"
  define y where "y = (cp div 64) mod 64"
  define z where "z = cp mod 64"
  have "cp div 4096 = cp div 64 div 64"
    by (simp add: div_mult2_eq [symmetric])
  then have 1: "cp div 64 = cp div 4096 * 64 + y"
    unfolding y_def by simp
  have "cp div 262144 = cp div 4096 div 64"
    by (simp add: div_mult2_eq [symmetric])
  then have 2: "cp div 4096 = w * 64 + x"
    unfolding w_def x_def by simp
  have cp: "cp = ((w * 64 + x) * 64 + y) * 64 + z"
    unfolding z_def 2 [symmetric] 1 [symmetric] by simp
  have b: "w < 5" "x < 64" "y < 64" "z < 64"
    using assms unfolding w_def x_def y_def z_def by simp_all
  have lo: "w = 0 \<Longrightarrow> 16 \<le> x"
    using assms(1) b unfolding cp by simp
  have hi: "w = 4 \<Longrightarrow> x < 16"
    using assms(2) b unfolding cp by simp
  have bytes: "utf8_bytes cp = [0xF0 + w, 0x80 + x, 0x80 + y, 0x80 + z]"
    using assms by (simp add: utf8_bytes_def w_def x_def y_def z_def)
  have "w * 262144 + x * 4096 + y * 64 + z = cp"
    unfolding cp by simp
  then show ?thesis
    unfolding bytes using b lo hi
    by (auto simp: is_continuation_def)
qed

lemma decode_scalar:
  assumes "cp < 0x110000" "\<not> (0xD800 \<le> cp \<and> cp < 0xE000)"
  shows "utf8_decode (utf8_bytes cp @ bs) = code_units cp @ utf8_decode bs"
proof -
  consider "cp < 0x80" | "0x80 \<le> cp" "cp < 0x800" | "0x800 \<le> cp" "cp < 0x10000"
    | "0x10000 \<le> cp"
    by linarith
  then show ?thesis
    using assms by cases (simp_all add: decode_1 decode_2 decode_3 decode_4)
qed

lemma surrogate_offsets:
  assumes "is_high_surrogate u" "is_low_surrogate l"
  obtains a b where "u = 0xD800 + a" "a < 1024" "l = 0xDC00 + b" "b < 1024"
proof -
  have "u = 0xD800 + (u - 0xD800)" "u - 0xD800 < 1024" "l = 0xDC00 + (l - 0xDC00)" "l - 0xDC00 < 1024"
    using assms unfolding is_high_surrogate_def is_low_surrogate_def by arith+
  then show ?thesis
    using that by blast
qed

lemma code_units_pair:
  assumes "is_high_surrogate u" "is_low_surrogate l"
  shows "code_units (0x10000 + (u - 0xD800) * 1024 + (l - 0xDC00)) = [u, l]"
proof -
  obtain a b where ab: "u = 0xD800 + a" "a < 1024" "l = 0xDC00 + b" "b < 1024"
    using assms by (rule surrogate_offsets)
  then show ?thesis
    by (simp add: code_units_def)
qed

lemma pair_range:
  assumes "is_high_surrogate u" "is_low_surrogate l"
  shows "0x10000 + (u - 0xD800) * 1024 + (l - 0xDC00) < 0x110000"
    and "0xE000 \<le> 0x10000 + (u - 0xD800) * 1024 + (l - 0xDC00)"
proof -
  obtain a b where ab: "u = 0xD800 + a" "a < 1024" "l = 0xDC00 + b" "b < 1024"
    using assms by (rule surrogate_offsets)
  then show "0x10000 + (u - 0xD800) * 1024 + (l - 0xDC00) < 0x110000"
    and "0xE000 \<le> 0x10000 + (u - 0xD800) * 1024 + (l - 0xDC00)"
    by simp_all
qed

lemma round_trip_units:
  assumes "paired_surrogates us" "\<forall>u \<in> set us. u < 0x10000"
  shows "utf8_decode (utf8_encode us) = us"
  using assms
proof (induction us rule: utf8_encode.induct)
  case 1
  then show ?case by simp
next
  case (2 u)
  then have "utf8_decode (utf8_bytes u @ []) = code_units u @ utf8_decode []"
    by (intro decode_scalar) (auto simp: is_high_surrogate_def is_low_surrogate_def)
  with 2 show ?case
    by (simp add: code_units_def)
next
  case (3 u l rest)
  have small: "u < 0x10000" "\<forall>u \<in> set rest. u < 0x10000" "\<forall>u \<in> set (l # rest). u < 0x10000"
    using "3.prems"(2) by simp_all
  show ?case
  proof (cases "is_high_surrogate u")
    case True
    with "3.prems"(1) have low: "is_low_surrogate l" and rest: "paired_surrogates rest"
      by simp_all
    have "utf8_decode (utf8_bytes (0x10000 + (u - 0xD800) * 1024 + (l - 0xDC00)) @ utf8_encode rest)
        = code_units (0x10000 + (u - 0xD800) * 1024 + (l - 0xDC00)) @ utf8_decode (utf8_encode rest)"
      using pair_range [OF True low] by (intro decode_scalar) simp_all
    then show ?thesis
      using True low rest small "3.IH"(1) by (simp add: code_units_pair)
  next
    case False
    with "3.prems"(1) have nlow: "\<not> is_low_surrogate u" and rest: "paired_surrogates (l # rest)"
      by simp_all
    have "utf8_decode (utf8_bytes u @ utf8_encode (l # rest)) =
        code_units u @ utf8_decode (utf8_encode (l # rest))"
      using False nlow small(1)
      by (intro decode_scalar) (auto simp: is_high_surrogate_def is_low_surrogate_def)
    then show ?thesis
      using False nlow rest small "3.IH"(3) by (simp add: code_units_def)
  qed
qed

lemma utf8_bytes_small:
  assumes "cp < 0x110000"
  shows "\<forall>b \<in> set (utf8_bytes cp). b < 256"
proof -
  have "cp div 64 < 32" if "cp < 0x800"
    using that by simp
  moreover have "cp div 4096 < 16" if "cp < 0x10000"
    using that by simp
  moreover have "cp div 262144 < 5"
    using assms by simp
  moreover have "cp mod 64 < 64" "(cp div 64) mod 64 < 64" "(cp div 4096) mod 64 < 64"
    by simp_all
  ultimately show ?thesis
    unfolding utf8_bytes_def by (auto simp: Let_def)
qed

lemma utf8_encode_small:
  assumes "\<forall>u \<in> set us. u < 0x10000"
  shows "\<forall>b \<in> set (utf8_encode us). b < 256"
  using assms
proof (induction us rule: utf8_encode.induct)
  case 1
  then show ?case by simp
next
  case (2 u)
  then show ?case
    using utf8_bytes_small [of u] utf8_bytes_small [of "0xFFFD"] by simp
next
  case (3 u l rest)
  have pair: "\<forall>b \<in> set (utf8_bytes (0x10000 + (u - 0xD800) * 1024 + (l - 0xDC00))). b < 256"
    if "is_high_surrogate u" "is_low_surrogate l"
    using pair_range(1) [OF that] by (rule utf8_bytes_small)
  have one: "\<forall>b \<in> set (utf8_bytes u). b < 256"
    using "3.prems" utf8_bytes_small [of u] by simp
  have repl: "\<forall>b \<in> set (utf8_bytes 0xFFFD). b < 256"
    by (rule utf8_bytes_small) simp
  show ?case
    using "3.IH" "3.prems" pair one repl by auto
qed

lemma bytes_of_nat_inverse:
  assumes "\<forall>b \<in> set bs. b < 256"
  shows "map unat (map of_nat bs :: byte list) = bs"
  using assms by (induction bs) (simp_all add: unat_of_nat)

lemma units_of_nat_inverse: "map of_nat (map unat s) = (s :: jsstring)"
  by (induction s) simp_all

lemma units_small: "\<forall>u \<in> set (map unat (s :: jsstring)). u < 0x10000"
proof
  fix u
  assume "u \<in> set (map unat s)"
  then obtain w :: "16 word" where "u = unat w" by auto
  moreover have "unat w < 2 ^ LENGTH(16)"
    by (rule unsigned_less)
  ultimately show "u < 0x10000" by simp
qed

lemma strip_bom_id:
  assumes "s = [] \<or> hd s \<noteq> (0xFEFF :: 16 word)"
  shows "strip_bom (map unat s) = map unat s"
proof (cases s)
  case Nil
  then show ?thesis by (simp add: strip_bom_def)
next
  case (Cons w ws)
  with assms have "w \<noteq> 0xFEFF" by simp
  then have "unat w \<noteq> unat (0xFEFF :: 16 word)"
    by (simp only: word_unat_eq_iff [symmetric] not_False_eq_True)
  then show ?thesis
    using Cons by (simp add: strip_bom_def)
qed

text \<open>
  Claim C7, amended. For every buffer and its chosen encoding whose decoded text has no
  surrogate code unit outside a pair and does not begin with U+FEFF, encoding the decoded
  text as UTF-8 bytes and decoding those bytes again with utf8 reproduces exactly the
  same text.
\<close>

theorem utf8_round_trip:
  assumes "iconv_decode rt = iconv_lite upper_half"
    and "fst (resolve rt buf hint evs) = Inr (encoding, decodedText)"
    and "paired_surrogates (map unat decodedText)"
    and "decodedText = [] \<or> hd decodedText \<noteq> 0xFEFF"
  shows "iconv_decode rt (Buffer_from_utf8 decodedText) ''utf8'' = Inr decodedText"
proof -
  have "map unat (Buffer_from_utf8 decodedText) = utf8_encode (map unat decodedText)"
    unfolding Buffer_from_utf8_def
    by (rule bytes_of_nat_inverse) (rule utf8_encode_small [OF units_small])
  then have "utf8_decode (map unat (Buffer_from_utf8 decodedText)) = map unat decodedText"
    using round_trip_units [OF assms(3) units_small] by simp
  then show ?thesis
    using strip_bom_id [OF assms(4)]
    by (simp add: assms(1) iconv_lite_def units_of_nat_inverse del: map_map)
qed

text \<open>
  The UTF-16LE bytes of a text of four code units (two letters of two and three UTF-8
  bytes, and a surrogate pair), resolved with the hint utf-16le.
\<close>

theorem utf8_round_trip_witness:
  "fst (resolve node_runtime [0xE9, 0x00, 0xAC, 0x20, 0x3D, 0xD8, 0x00, 0xDE] (Some ''utf-16le'') []) =
     Inr (''utf-16le'', [0xE9, 0x20AC, 0xD83D, 0xDE00]) \<and>
   paired_surrogates (map unat [0xE9, 0x20AC, 0xD83D, 0xDE00 :: 16 word]) \<and>
   Buffer_from_utf8 [0xE9, 0x20AC, 0xD83D, 0xDE00] =
     [0xC3, 0xA9, 0xE2, 0x82, 0xAC, 0xF0, 0x9F, 0x98, 0x80] \<and>
   iconv_decode node_runtime [0xC3, 0xA9, 0xE2, 0x82, 0xAC, 0xF0, 0x9F, 0x98, 0x80] ''utf8'' =
     Inr [0xE9, 0x20AC, 0xD83D, 0xDE00]"
proof -
  have h1: "iconv_decode node_runtime = iconv_lite no_upper_half"
    by (simp add: node_runtime_def)
  have h2: "fst (resolve node_runtime [0xE9, 0x00, 0xAC, 0x20, 0x3D, 0xD8, 0x00, 0xDE]
      (Some ''utf-16le'') []) = Inr (''utf-16le'', [0xE9, 0x20AC, 0xD83D, 0xDE00])"
    by (simp add: resolve_hint node_runtime_def iconv_lite_def strip_bom_def)
  have h3: "paired_surrogates (map unat [0xE9, 0x20AC, 0xD83D, 0xDE00 :: 16 word])"
    by (simp add: is_high_surrogate_def is_low_surrogate_def)
  have h4: "[0xE9, 0x20AC, 0xD83D, 0xDE00] = [] \<or> hd [0xE9, 0x20AC, 0xD83D, 0xDE00] \<noteq> (0xFEFF :: 16 word)"
    by simp
  have enc: "Buffer_from_utf8 [0xE9, 0x20AC, 0xD83D, 0xDE00] =
      [0xC3, 0xA9, 0xE2, 0x82, 0xAC, 0xF0, 0x9F, 0x98, 0x80]"
    by (simp add: Buffer_from_utf8_def utf8_bytes_def is_high_surrogate_def is_low_surrogate_def)
  from utf8_round_trip [OF h1 h2 h3 h4] show ?thesis
    using h2 h3 enc by simp
qed

text \<open>
  Claim C7 as stated fails for a text with a high surrogate that no low surrogate
  follows: the hint utf-16le decodes the four bytes below to the code units D800 and 41,
  the UTF-8 encoder writes U+FFFD for the lone surrogate, and decoding the four UTF-8
  bytes gives FFFD and 41.
\<close>

theorem lone_surrogate_round_trip_counterexample:
  "fst (resolve node_runtime [0x00, 0xD8, 0x41, 0x00] (Some ''utf-16le'') []) =
     Inr (''utf-16le'', [0xD800, 0x41]) \<and>
   Buffer_from_utf8 [0xD800, 0x41] = [0xEF, 0xBF, 0xBD, 0x41] \<and>
   iconv_decode node_runtime (Buffer_from_utf8 [0xD800, 0x41]) ''utf8'' = Inr [0xFFFD, 0x41] \<and>
   iconv_decode node_runtime (Buffer_from_utf8 [0xD800, 0x41]) ''utf8'' \<noteq> Inr [0xD800, 0x41]"
proof -
  have dec: "fst (resolve node_runtime [0x00, 0xD8, 0x41, 0x00] (Some ''utf-16le'') []) =
      Inr (''utf-16le'', [0xD800, 0x41])"
    by (simp add: resolve_hint node_runtime_def iconv_lite_def strip_bom_def)
  have enc: "Buffer_from_utf8 [0xD800, 0x41] = [0xEF, 0xBF, 0xBD, 0x41]"
    by (simp add: Buffer_from_utf8_def utf8_bytes_def is_high_surrogate_def is_low_surrogate_def)
  have again: "iconv_decode node_runtime [0xEF, 0xBF, 0xBD, 0x41] ''utf8'' = Inr [0xFFFD, 0x41]"
    by (simp add: node_runtime_def iconv_lite_def strip_bom_def is_continuation_def)
  show ?thesis
    by (simp add: dec enc again)
qed

subsection \<open>The name of the converted file\<close>

lemma path_parse_plain:
  assumes "CHR ''/'' \<notin> set file"
  shows "path_parse file =
     (if CHR ''.'' \<notin> set file \<or>
         length file - Suc (length (takeWhile (\<lambda>c. c \<noteq> CHR ''.'') (rev file))) = 0 \<or>
         file = ''..''
      then \<lparr>name = file, ext = []\<rparr>
      else \<lparr>name = take (length file - Suc (length (takeWhile (\<lambda>c. c \<noteq> CHR ''.'') (rev file)))) file,
            ext = drop (length file - Suc (length (takeWhile (\<lambda>c. c \<noteq> CHR ''.'') (rev file)))) file\<rparr>)"
proof -
  have 1: "dropWhile (\<lambda>c. c = CHR ''/'') (rev file) = rev file"
    using assms by (cases "rev file") (auto simp: dropWhile_eq_self_iff)
  have 2: "takeWhile (\<lambda>c. c \<noteq> CHR ''/'') (rev file) = rev file"
    using assms by (auto simp: takeWhile_eq_all_conv)
  show ?thesis
    by (simp add: path_parse_def Let_def 1 2)
qed

lemma outputPath_no_dot:
  assumes "CHR ''/'' \<notin> set file" and "CHR ''.'' \<notin> set file"
  shows "outputPath file = file @ ''-utf8''"
  using assms by (simp add: outputPath_def path_parse_plain Let_def)

lemma start_dot:
  assumes "CHR ''.'' \<notin> set e"
  shows "length (stem @ CHR ''.'' # e) -
     Suc (length (takeWhile (\<lambda>c. c \<noteq> CHR ''.'') (rev (stem @ CHR ''.'' # e)))) = length stem"
proof -
  have "takeWhile (\<lambda>c. c \<noteq> CHR ''.'') (rev e @ CHR ''.'' # rev stem) = rev e"
    using assms by (subst takeWhile_append2) auto
  then show ?thesis by simp
qed

lemma outputPath_extension:
  assumes "CHR ''/'' \<notin> set stem" and "CHR ''/'' \<notin> set e" and "CHR ''.'' \<notin> set e"
    and "stem \<noteq> []" and "stem \<noteq> ''.'' \<or> e \<noteq> []"
  shows "outputPath (stem @ CHR ''.'' # e) = stem @ ''-utf8'' @ CHR ''.'' # e"
proof -
  have slash: "CHR ''/'' \<notin> set (stem @ CHR ''.'' # e)"
    using assms(1,2) by simp
  have dots: "stem @ CHR ''.'' # e \<noteq> ''..''"
  proof
    assume eq: "stem @ CHR ''.'' # e = ''..''"
    then have "length (stem @ CHR ''.'' # e) = 2" by simp
    with assms(4) have "length stem = 1" and e: "e = []"
      by (cases stem; simp)+
    then obtain c where "stem = [c]"
      by (cases stem) auto
    with eq e assms(5) show False by simp
  qed
  have "path_parse (stem @ CHR ''.'' # e) = \<lparr>name = stem, ext = CHR ''.'' # e\<rparr>"
    unfolding path_parse_plain [OF slash] start_dot [OF assms(3)]
    using assms(4) dots by simp
  then show ?thesis
    by (simp add: outputPath_def)
qed

lemma outputPath_leading_dot:
  assumes "CHR ''/'' \<notin> set e" and "CHR ''.'' \<notin> set e"
  shows "outputPath (CHR ''.'' # e) = CHR ''.'' # e @ ''-utf8''"
proof -
  have slash: "CHR ''/'' \<notin> set ([] @ CHR ''.'' # e)"
    using assms(1) by simp
  have "path_parse ([] @ CHR ''.'' # e) = \<lparr>name = [] @ CHR ''.'' # e, ext = []\<rparr>"
    unfolding path_parse_plain [OF slash] start_dot [OF assms(2)] by simp
  then show ?thesis
    by (simp add: outputPath_def)
qed

text \<open>
  Claim C8. The derived output name puts \<open>-utf8\<close> before the final extension, found
  by the last dot: orders.sql gives orders-utf8.sql, a.b.sql gives a.b-utf8.sql, and
  data, which has no extension, gives data-utf8. In general, for a name without a slash:
  a name \<open>stem.e\<close> whose \<open>e\<close> has no dot and whose \<open>stem\<close> is not empty (and which
  is not the name of two dots) gives \<open>stem-utf8.e\<close>; a name without a dot gets
  \<open>-utf8\<close> appended; and a name whose only dot is its first character has no extension
  in the sense of path splitting and gets \<open>-utf8\<close> appended as well.
\<close>

theorem output_name:
  "outputPath ''orders.sql'' = ''orders-utf8.sql'' \<and>
   outputPath ''a.b.sql'' = ''a.b-utf8.sql'' \<and>
   outputPath ''data'' = ''data-utf8'' \<and>
   (CHR ''/'' \<notin> set stem \<and> CHR ''/'' \<notin> set e \<and> CHR ''.'' \<notin> set e \<and> stem \<noteq> [] \<and>
      (stem \<noteq> ''.'' \<or> e \<noteq> []) \<longrightarrow>
      outputPath (stem @ CHR ''.'' # e) = stem @ ''-utf8'' @ CHR ''.'' # e) \<and>
   (CHR ''/'' \<notin> set file \<and> CHR ''.'' \<notin> set file \<longrightarrow> outputPath file = file @ ''-utf8'') \<and>
   (CHR ''/'' \<notin> set d \<and> CHR ''.'' \<notin> set d \<longrightarrow> outputPath (CHR ''.'' # d) = CHR ''.'' # d @ ''-utf8'')"
proof (intro conjI impI)
  show "outputPath ''orders.sql'' = ''orders-utf8.sql''"
    using outputPath_extension [of "''orders''" "''sql''"] by simp
  show "outputPath ''a.b.sql'' = ''a.b-utf8.sql''"
    using outputPath_extension [of "''a.b''" "''sql''"] by simp
  show "outputPath ''data'' = ''data-utf8''"
    using outputPath_no_dot [of "''data''"] by simp
qed (simp_all add: outputPath_extension outputPath_no_dot outputPath_leading_dot)

theorem output_name_witness:
  "CHR ''/'' \<notin> set ''report.final'' \<and> CHR ''/'' \<notin> set ''sql'' \<and> CHR ''.'' \<notin> set ''sql'' \<and>
   CHR ''/'' \<notin> set ''notes'' \<and> CHR ''.'' \<notin> set ''notes'' \<and>
   outputPath ''report.final.sql'' = ''report.final-utf8.sql'' \<and>
   outputPath ''notes'' = ''notes-utf8'' \<and>
   outputPath ''.sql'' = ''.sql-utf8''"
  using output_name [of "''report.final''" "''sql''" "''notes''" "''sql''"] by simp

subsection \<open>The printable ratio of an empty text\<close>

text \<open>
  Claim C9. For every candidate whose decoded text has length 0, computing the printable
  ratio raises nothing, so that the candidate is scored and logged like any other (the
  quotient 0 / 0 is the number NaN), and the bonus of 30 is not awarded, the comparison
  of NaN with 0.8 being false: the score is 100 plus 5 for each keyword found in the
  upper-cased text.
\<close>

theorem empty_text_gets_no_bonus:
  assumes "iconv_decode rt buf encoding = Inr decoded" and "length decoded = 0"
  shows "printableRatio decoded = NaN \<and>
     \<not> js_greater (printableRatio decoded) (8 / 10) \<and>
     score rt decoded = 100 + int (sqlKeywordCount rt decoded) * 5 \<and>
     events (try_encoding rt buf encoding st) =
       events st @ [IconvDecode encoding,
                    LogDebug encoding (100 + int (sqlKeywordCount rt decoded) * 5)]"
proof -
  have sc: "score rt decoded = 100 + int (sqlKeywordCount rt decoded) * 5"
    using assms(2)
    by (simp add: printableRatio_def js_divide_def printableChars_def replace_g_empty_def
        score_def replacementCharCount_def sqlCharCount_def match_g_def or_empty_def)
  have ratio: "printableRatio decoded = NaN"
    using assms(2)
    by (simp add: printableRatio_def js_divide_def printableChars_def replace_g_empty_def)
  have "events (try_encoding rt buf encoding st) =
      events st @ [IconvDecode encoding, LogDebug encoding (score rt decoded)]"
    using assms(1) by (simp add: try_encoding_def Let_def)
  with sc ratio show ?thesis by simp
qed

theorem empty_text_gets_no_bonus_witness:
  "iconv_decode node_runtime [] ''utf8'' = Inr [] \<and> length ([] :: jsstring) = 0 \<and>
   printableRatio [] = NaN \<and> \<not> js_greater (printableRatio []) (8 / 10) \<and>
   score node_runtime [] = 100 \<and>
   events (try_encoding node_runtime [] ''utf8''
     \<lparr>bestEncoding = ''utf8'', bestScore = 0, events = []\<rparr>) =
     [IconvDecode ''utf8'', LogDebug ''utf8'' 100]"
proof -
  have h: "iconv_decode node_runtime [] ''utf8'' = Inr []"
    by (simp add: empty_decoded encodingsToTry_def)
  from empty_text_gets_no_bonus [OF h, of "\<lparr>bestEncoding = ''utf8'', bestScore = 0, events = []\<rparr>"]
  show ?thesis
    using h empty_score by simp
qed

subsection \<open>The initial best pair\<close>

text \<open>
  Claim C10. The detection starts from the encoding utf8 with best score 0, the body of
  the loop never lowers the best score, and when no candidate that decodes has a score
  above 0 the detection returns utf8 with score 0.
\<close>

theorem best_score_never_below_zero:
  assumes "\<forall>e \<in> set encodingsToTry. \<forall>v. candidate_score rt buf e = Some v \<longrightarrow> v \<le> 0"
  shows "bestEncoding (detect rt buf evs) = ''utf8'' \<and> bestScore (detect rt buf evs) = 0 \<and>
         bestScore st \<le> bestScore (try_encoding rt buf e st)"
proof -
  from detect_cases [of rt buf evs]
  have "bestEncoding (detect rt buf evs) = ''utf8'' \<and> bestScore (detect rt buf evs) = 0"
  proof (elim disjE exE conjE)
    fix pre e post v
    assume h: "encodingsToTry = pre @ e # post" "candidate_score rt buf e = Some v" "0 < v"
    have "e \<in> set encodingsToTry"
      by (simp add: h(1))
    with assms h(2) have "v \<le> 0" by blast
    with h(3) show ?thesis by simp
  qed simp
  then show ?thesis
    by (simp add: try_encoding_mono)
qed

text \<open>
  Eight bytes 0xFF with a codec that has UTF-8 only: both UTF-8 names decode to eight
  U+FFFD and score 0, every other name throws.
\<close>

lemma invalid_candidates:
  "map (candidate_score utf8_only_runtime [0xFF, 0xFF, 0xFF, 0xFF, 0xFF, 0xFF, 0xFF, 0xFF])
     encodingsToTry =
   [Some 0, Some 0, None, None, None, None, None, None, None, None, None, None, None, None,
    None, None, None, None, None, None, None, None, None, None, None]"
proof -
  have sc: "score utf8_only_runtime = score node_runtime"
    by (simp add: fun_eq_iff score_def sqlKeywordCount_def utf8_only_runtime_def)
  have s: "score node_runtime [0xFFFD, 0xFFFD, 0xFFFD, 0xFFFD, 0xFFFD, 0xFFFD, 0xFFFD, 0xFFFD] = 0"
    by code_simp
  have d: "iconv_lite no_upper_half [0xFF, 0xFF, 0xFF, 0xFF, 0xFF, 0xFF, 0xFF, 0xFF] ''utf8'' =
      Inr [0xFFFD, 0xFFFD, 0xFFFD, 0xFFFD, 0xFFFD, 0xFFFD, 0xFFFD, 0xFFFD]"
    "iconv_lite no_upper_half [0xFF, 0xFF, 0xFF, 0xFF, 0xFF, 0xFF, 0xFF, 0xFF] ''utf-8'' =
      Inr [0xFFFD, 0xFFFD, 0xFFFD, 0xFFFD, 0xFFFD, 0xFFFD, 0xFFFD, 0xFFFD]"
    by (simp_all add: iconv_lite_def strip_bom_def)
  show ?thesis
    by (simp add: encodingsToTry_def candidate_score_def utf8_only_runtime_def sc [unfolded utf8_only_runtime_def] d s)
qed

theorem best_score_never_below_zero_witness:
  "map (candidate_score utf8_only_runtime [0xFF, 0xFF, 0xFF, 0xFF, 0xFF, 0xFF, 0xFF, 0xFF])
     encodingsToTry =
   [Some 0, Some 0, None, None, None, None, None, None, None, None, None, None, None, None,
    None, None, None, None, None, None, None, None, None, None, None] \<and>
   bestEncoding (detect utf8_only_runtime [0xFF, 0xFF, 0xFF, 0xFF, 0xFF, 0xFF, 0xFF, 0xFF] []) = ''utf8'' \<and>
   bestScore (detect utf8_only_runtime [0xFF, 0xFF, 0xFF, 0xFF, 0xFF, 0xFF, 0xFF, 0xFF] []) = 0 \<and>
   bestScore \<lparr>bestEncoding = ''utf8'', bestScore = 0, events = []\<rparr> \<le>
     bestScore (try_encoding utf8_only_runtime [0xFF, 0xFF, 0xFF, 0xFF, 0xFF, 0xFF, 0xFF, 0xFF] ''utf8''
       \<lparr>bestEncoding = ''utf8'', bestScore = 0, events = []\<rparr>)"
proof -
  have "\<forall>c \<in> set (map (candidate_score utf8_only_runtime
      [0xFF, 0xFF, 0xFF, 0xFF, 0xFF, 0xFF, 0xFF, 0xFF]) encodingsToTry). c = Some 0 \<or> c = None"
    unfolding invalid_candidates by simp
  then have h: "\<forall>e \<in> set encodingsToTry. \<forall>v.
      candidate_score utf8_only_runtime [0xFF, 0xFF, 0xFF, 0xFF, 0xFF, 0xFF, 0xFF, 0xFF] e = Some v
        \<longrightarrow> v \<le> 0"
    by auto
  from best_score_never_below_zero [OF h, of "[]"
      "\<lparr>bestEncoding = ''utf8'', bestScore = 0, events = []\<rparr>" "''utf8''"]
  show ?thesis
    using invalid_candidates by simp
qed

end
